theory Spec2Isabelle
  imports Complex_Main "HOL-Library.Word"
begin

section \<open>Constants and lifecycle states (state.ts)\<close>

text \<open>
  JavaScript numbers are modelled as mathematical numbers: \<open>real\<close> for the multipliers,
  the balance and the timers, \<open>int\<close> for the values that are integers in the source.
  Rounding of IEEE doubles is not part of the model.
\<close>

datatype GameState = IDLE | FETCHING_RNG | RUNNING | CASHED_OUT | CRASHED

definition COST_TO_PLAY :: real where
  "COST_TO_PLAY = 10"

definition START_BALANCE :: real where
  "START_BALANCE = 100"

definition MAX_MULTIPLIER :: real where
  "MAX_MULTIPLIER = 25"

definition HOUSE_EDGE :: real where
  "HOUSE_EDGE = 6 / 100"

definition TARGET_MULTIPLIER :: real where
  "TARGET_MULTIPLIER = 34 / 10"

definition TARGET_TIME :: real where
  "TARGET_TIME = 20"

definition GROWTH_K :: real where
  "GROWTH_K = ln TARGET_MULTIPLIER / TARGET_TIME"

section \<open>The round engine (Game.ts)\<close>

text \<open>
  The engine fields of class \<open>Game\<close>. Rendering, particles and audio are left out; the
  calls on the \<open>UI\<close> object are kept as a log of calls (field \<open>ui\<close>, oldest first),
  with the numbers that the source formats into strings kept as numbers.
\<close>

datatype Highlight = Big | Jackpot

type_synonym HistoryEntry = "real \<times> Highlight option"

datatype ResultKind = Win | Loss

datatype BannerKind = CashoutBanner | CrashBanner

datatype UICall =
    ClearBanner
  | ClearMegaWin
  | ShowTooltip string
  | SetState GameState
  | SetBalance real
  | SetMultiplier real
  | SetPotential real
  | SetLastResult ResultKind real
  | ShowBanner BannerKind real
  | AnimateReturn real real
  | ShowMegaWin Highlight real
  | SetHistory "HistoryEntry list"

record Game =
  state :: GameState
  balance :: real
  currentMultiplier :: real
  crashMultiplier :: real
  roundTime :: real
  endTimer :: real
  cashoutLocked :: bool
  crashLocked :: bool
  history :: "HistoryEntry list"
  lastTickStep :: int
  ui :: "UICall list"

definition emit :: "UICall \<Rightarrow> Game \<Rightarrow> Game" where
  "emit c g = g\<lparr>ui := ui g @ [c]\<rparr>"

text \<open>The field initialisers and the four \<open>ui\<close> calls of the constructor.\<close>

definition newGame :: Game where
  "newGame =
     \<lparr>state = IDLE, balance = START_BALANCE, currentMultiplier = 1,
      crashMultiplier = MAX_MULTIPLIER, roundTime = 0, endTimer = 0,
      cashoutLocked = False, crashLocked = False, history = [], lastTickStep = 10,
      ui = [SetBalance START_BALANCE, SetPotential COST_TO_PLAY, SetState IDLE, SetHistory []]\<rparr>"

text \<open>\<open>recordHistory\<close>: the new entry goes first, the list is cut to 12 entries.\<close>

definition recordHistory :: "real \<Rightarrow> Highlight option \<Rightarrow> Game \<Rightarrow> Game" where
  "recordHistory v h g =
     (let hist = take 12 ((min MAX_MULTIPLIER v, h) # history g)
      in emit (SetHistory hist) (g\<lparr>history := hist\<rparr>))"

text \<open>
  \<open>startRound\<close> is asynchronous. \<open>startRound_begin\<close> is the part that runs before the
  first \<open>await\<close>; \<open>startRound_resume\<close> is the part that runs once the crash multiplier
  has resolved and the minimum charge time has passed, with the resolved value as argument.
\<close>

definition startRound_begin :: "Game \<Rightarrow> Game" where
  "startRound_begin g =
     (if state g \<noteq> IDLE then g
      else
        let g1 = emit ClearMegaWin (emit ClearBanner g) in
        if balance g1 < COST_TO_PLAY
        then emit (ShowTooltip ''Balance too low to play.'') g1
        else
          let g2 = emit (SetState FETCHING_RNG) (g1\<lparr>state := FETCHING_RNG\<rparr>);
              g3 = g2\<lparr>balance := balance g2 - COST_TO_PLAY\<rparr>;
              g4 = emit (SetBalance (balance g3)) g3;
              g5 = g4\<lparr>roundTime := 0, currentMultiplier := 1,
                      crashMultiplier := MAX_MULTIPLIER,
                      cashoutLocked := False, crashLocked := False\<rparr>;
              g6 = g5\<lparr>lastTickStep := \<lfloor>currentMultiplier g5 * 10\<rfloor>\<rparr>
          in emit (SetPotential COST_TO_PLAY) (emit (SetMultiplier (currentMultiplier g6)) g6))"

definition startRound_resume :: "real \<Rightarrow> Game \<Rightarrow> Game" where
  "startRound_resume crash g =
     (if state g \<noteq> FETCHING_RNG then g
      else
        let g1 = g\<lparr>crashMultiplier := crash\<rparr>;
            g2 = g1\<lparr>state := RUNNING\<rparr>
        in emit (SetState (state g2)) g2)"

definition cashOut :: "Game \<Rightarrow> Game" where
  "cashOut g =
     (if state g \<noteq> RUNNING \<or> cashoutLocked g then g
      else
        let g1 = g\<lparr>cashoutLocked := True\<rparr>;
            payout = COST_TO_PLAY * currentMultiplier g1;
            g2 = g1\<lparr>balance := balance g1 + payout\<rparr>;
            g3 = g2\<lparr>state := CASHED_OUT, endTimer := 16 / 10\<rparr>;
            g4 = emit (SetState (state g3)) g3;
            g5 = emit (SetBalance (balance g4)) g4;
            g6 = emit (SetLastResult Win payout) g5;
            g7 = emit (ShowBanner CashoutBanner (currentMultiplier g6)) g6;
            g8 = emit (AnimateReturn COST_TO_PLAY payout) g7;
            isJackpot = (currentMultiplier g8 \<ge> MAX_MULTIPLIER - 1 / 100)
        in if isJackpot
           then recordHistory (crashMultiplier g8) (Some Jackpot)
                  (emit (ShowMegaWin Jackpot (currentMultiplier g8)) g8)
           else if currentMultiplier g8 \<ge> 10
           then recordHistory (crashMultiplier g8) (Some Big)
                  (emit (ShowMegaWin Big (currentMultiplier g8)) g8)
           else recordHistory (crashMultiplier g8) None g8)"

definition crash :: "Game \<Rightarrow> Game" where
  "crash g =
     (if state g \<noteq> RUNNING \<or> crashLocked g then g
      else
        let g1 = g\<lparr>crashLocked := True\<rparr>;
            g2 = g1\<lparr>state := CRASHED, endTimer := 16 / 10\<rparr>;
            g3 = emit (SetState (state g2)) g2;
            g4 = emit (SetLastResult Loss COST_TO_PLAY) g3;
            g5 = emit (ShowBanner CrashBanner (currentMultiplier g4)) g4;
            g6 = emit (AnimateReturn (COST_TO_PLAY * currentMultiplier g5) 0) g5
        in recordHistory (crashMultiplier g6) None g6)"

definition resetRound :: "Game \<Rightarrow> Game" where
  "resetRound g =
     (let g1 = g\<lparr>state := IDLE, currentMultiplier := 1, roundTime := 0, endTimer := 0,
                  crashMultiplier := MAX_MULTIPLIER,
                  cashoutLocked := False, crashLocked := False\<rparr>;
          g2 = g1\<lparr>lastTickStep := \<lfloor>currentMultiplier g1 * 10\<rfloor>\<rparr>
      in emit (SetPotential COST_TO_PLAY)
           (emit (SetMultiplier (currentMultiplier g2)) (emit (SetState (state g2)) g2)))"

text \<open>
  \<open>update\<close>, one frame of \<open>dt\<close> seconds: the two engine blocks of the method, in the
  source's order. \<open>update_running\<close> is the \<open>RUNNING\<close> block, \<open>update_settled\<close> the
  block that counts the display timer down.
\<close>

definition update_running :: "real \<Rightarrow> Game \<Rightarrow> Game" where
  "update_running dt g =
     (if state g = RUNNING then
        let g1 = g\<lparr>roundTime := roundTime g + dt\<rparr>;
            g2 = g1\<lparr>currentMultiplier := min MAX_MULTIPLIER (exp (GROWTH_K * roundTime g1))\<rparr>;
            g3 = emit (SetMultiplier (currentMultiplier g2)) g2;
            g4 = emit (SetPotential (COST_TO_PLAY * currentMultiplier g3)) g3;
            tickStep = \<lfloor>currentMultiplier g4 * 10\<rfloor>;
            g5 = (if tickStep > lastTickStep g4 then g4\<lparr>lastTickStep := tickStep\<rparr> else g4)
        in if currentMultiplier g5 \<ge> crashMultiplier g5 then crash g5 else g5
      else g)"

definition update_settled :: "real \<Rightarrow> Game \<Rightarrow> Game" where
  "update_settled dt g =
     (if state g = CASHED_OUT \<or> state g = CRASHED then
        let g1 = g\<lparr>endTimer := endTimer g - dt\<rparr>
        in if endTimer g1 \<le> 0 then resetRound g1 else g1
      else g)"

definition update :: "real \<Rightarrow> Game \<Rightarrow> Game" where
  "update dt g = update_settled dt (update_running dt g)"

text \<open>
  The events the engine reacts to: the play button, the cash-out button (or the space
  key while \<open>RUNNING\<close>, which calls the same method), the resolution of the pending
  crash-multiplier draw, and a ticker frame. The ticker's \<open>deltaMS\<close> is never negative.
\<close>

datatype Event = Play | CashOutReq | Resolved real | Tick real

fun step :: "Event \<Rightarrow> Game \<Rightarrow> Game" where
  "step Play g = startRound_begin g"
| "step CashOutReq g = cashOut g"
| "step (Resolved c) g = startRound_resume c g"
| "step (Tick dt) g = update dt g"

fun okEvent :: "Event \<Rightarrow> bool" where
  "okEvent (Tick dt) = (0 \<le> dt)"
| "okEvent _ = True"

fun run :: "Event list \<Rightarrow> Game \<Rightarrow> Game" where
  "run [] g = g"
| "run (e # es) g = run es (step e g)"

inductive reachable :: "Game \<Rightarrow> bool" where
  reach_new: "reachable newGame"
| reach_step: "reachable g \<Longrightarrow> okEvent e \<Longrightarrow> reachable (step e g)"

text \<open>The invariant of the reachable states that the settlement guards rely on.\<close>

definition engine_inv :: "Game \<Rightarrow> bool" where
  "engine_inv g \<longleftrightarrow>
     (state g = RUNNING \<longrightarrow>
        \<not> cashoutLocked g \<and> \<not> crashLocked g \<and> 0 \<le> roundTime g \<and>
        currentMultiplier g = min MAX_MULTIPLIER (exp (GROWTH_K * roundTime g)) \<and>
        (currentMultiplier g < crashMultiplier g \<or> roundTime g = 0)) \<and>
     (state g = FETCHING_RNG \<longrightarrow>
        \<not> cashoutLocked g \<and> \<not> crashLocked g \<and> roundTime g = 0 \<and> currentMultiplier g = 1)"

section \<open>The entropy source (class RNG and its helpers)\<close>

text \<open>
  Where the source tests a number for \<open>NaN\<close> or finiteness the model uses \<open>Number\<close>:
  a real, one of the two infinities, or \<open>NaN\<close>. Signed zeros are not distinguished.
  Strings are lists of 8-bit characters (code units 0 to 255).
\<close>

datatype Number = NaN | PosInfinity | NegInfinity | Fin real

fun Number_isNaN :: "Number \<Rightarrow> bool" where
  "Number_isNaN NaN = True"
| "Number_isNaN _ = False"

fun Number_isFinite :: "Number \<Rightarrow> bool" where
  "Number_isFinite (Fin _) = True"
| "Number_isFinite _ = False"

text \<open>\<open>Math.round\<close>: the nearest integer, halves towards plus infinity.\<close>

fun Math_round :: "Number \<Rightarrow> Number" where
  "Math_round (Fin x) = Fin (of_int \<lfloor>x + 1 / 2\<rfloor>)"
| "Math_round n = n"

text \<open>The operators \<open>+\<close>, \<open>/\<close>, \<open>%\<close>, \<open><\<close>, \<open>>\<close> and \<open>Math.min\<close> on numbers.\<close>

fun num_add :: "Number \<Rightarrow> Number \<Rightarrow> Number" where
  "num_add (Fin a) (Fin b) = Fin (a + b)"
| "num_add NaN _ = NaN"
| "num_add _ NaN = NaN"
| "num_add PosInfinity NegInfinity = NaN"
| "num_add NegInfinity PosInfinity = NaN"
| "num_add PosInfinity _ = PosInfinity"
| "num_add NegInfinity _ = NegInfinity"
| "num_add (Fin a) b = b"

fun num_div :: "Number \<Rightarrow> Number \<Rightarrow> Number" where
  "num_div (Fin a) (Fin b) =
     (if b \<noteq> 0 then Fin (a / b)
      else if a = 0 then NaN else if 0 < a then PosInfinity else NegInfinity)"
| "num_div NaN _ = NaN"
| "num_div _ NaN = NaN"
| "num_div (Fin a) _ = Fin 0"
| "num_div PosInfinity (Fin b) = (if 0 \<le> b then PosInfinity else NegInfinity)"
| "num_div NegInfinity (Fin b) = (if 0 \<le> b then NegInfinity else PosInfinity)"
| "num_div _ _ = NaN"

fun num_less :: "Number \<Rightarrow> Number \<Rightarrow> bool" where
  "num_less (Fin a) (Fin b) = (a < b)"
| "num_less NaN _ = False"
| "num_less _ NaN = False"
| "num_less NegInfinity b = (b \<noteq> NegInfinity)"
| "num_less a PosInfinity = (a \<noteq> PosInfinity)"
| "num_less _ _ = False"

text \<open>
  \<open>a % b\<close> keeps the sign of \<open>a\<close>; it is \<open>NaN\<close> when \<open>a\<close> is infinite or \<open>b\<close> is zero,
  and \<open>a\<close> when only \<open>b\<close> is infinite.
\<close>

fun num_rem :: "Number \<Rightarrow> Number \<Rightarrow> Number" where
  "num_rem (Fin a) (Fin b) =
     (if b = 0 then NaN else Fin (a - \<bar>b\<bar> * sgn a * of_int \<lfloor>\<bar>a\<bar> / \<bar>b\<bar>\<rfloor>))"
| "num_rem NaN _ = NaN"
| "num_rem _ NaN = NaN"
| "num_rem (Fin a) _ = Fin a"
| "num_rem _ _ = NaN"

fun Math_min :: "Number \<Rightarrow> Number \<Rightarrow> Number" where
  "Math_min (Fin a) (Fin b) = Fin (min a b)"
| "Math_min NaN _ = NaN"
| "Math_min _ NaN = NaN"
| "Math_min NegInfinity _ = NegInfinity"
| "Math_min _ NegInfinity = NegInfinity"
| "Math_min PosInfinity b = b"
| "Math_min a PosInfinity = a"

definition MAX_UINT16 :: real where
  "MAX_UINT16 = 65535"

datatype OutshiftEncoding = Base64 | Raw

record RandomNumberField =
  binary :: "string option"
  octal :: "string option"
  decimal :: "string option"
  hexadecimal :: "string option"

record RandomNumberResp =
  encoding :: "OutshiftEncoding option"
  random_numbers :: "RandomNumberField list option"

record RNG =
  isQuantum :: bool

subsection \<open>The platform functions the parser calls\<close>

text \<open>
  \<open>String.prototype.trim\<close> and \<open>parseInt\<close> skip white space and line terminators; of
  these the code units below 256 are 9 to 13, 32 and 160.
\<close>

definition isWhiteSpace :: "char \<Rightarrow> bool" where
  "isWhiteSpace c = (of_char c \<in> {9, 10, 11, 12, 13, 32, 160 :: nat})"

definition trim :: "string \<Rightarrow> string" where
  "trim s = rev (dropWhile isWhiteSpace (rev (dropWhile isWhiteSpace s)))"

definition digitValue :: "char \<Rightarrow> nat option" where
  "digitValue c =
     (let n = of_char c :: nat
      in if 48 \<le> n \<and> n \<le> 57 then Some (n - 48)
         else if 97 \<le> n \<and> n \<le> 122 then Some (n - 87)
         else if 65 \<le> n \<and> n \<le> 90 then Some (n - 55)
         else None)"

definition isRadixDigit :: "nat \<Rightarrow> char \<Rightarrow> bool" where
  "isRadixDigit radix c = (case digitValue c of None \<Rightarrow> False | Some d \<Rightarrow> d < radix)"

definition digitsValue :: "nat \<Rightarrow> string \<Rightarrow> int" where
  "digitsValue radix z = foldl (\<lambda>acc c. acc * int radix + int (the (digitValue c))) 0 z"

text \<open>
  The number value of a mathematical integer: an integer whose magnitude reaches
  \<open>2^1024 - 2^970\<close> rounds to an infinity. Rounding to 53 significant bits below that
  bound is not modelled.
\<close>

definition toNumber :: "int \<Rightarrow> Number" where
  "toNumber n =
     (if \<bar>n\<bar> < 2 ^ 1024 - 2 ^ 970 then Fin (of_int n)
      else if 0 < n then PosInfinity else NegInfinity)"

text \<open>
  \<open>parseInt(string, radix)\<close> for an explicit radix: leading white space is skipped, then
  an optional sign, then for radix 16 an optional \<open>0x\<close> or \<open>0X\<close>; the longest prefix of
  digits of the radix is read, and no digit at all gives \<open>NaN\<close>.
\<close>

definition parseInt :: "string \<Rightarrow> nat \<Rightarrow> Number" where
  "parseInt str radix =
     (let s = dropWhile isWhiteSpace str;
          sign = (if take 1 s = ''-'' then - 1 else 1 :: int);
          s1 = (if take 1 s = ''-'' \<or> take 1 s = ''+'' then drop 1 s else s)
      in if radix < 2 \<or> 36 < radix then NaN
         else
           let s2 = (if radix = 16 \<and> (take 2 s1 = ''0x'' \<or> take 2 s1 = ''0X'')
                     then drop 2 s1 else s1);
               z = takeWhile (isRadixDigit radix) s2
           in if z = [] then NaN else toNumber (sign * digitsValue radix z))"

text \<open>
  \<open>atob\<close>, the forgiving base64 decoder: ASCII white space is removed, a final \<open>=\<close> or
  \<open>==\<close> is removed from an input whose length is a multiple of 4, a length of 1 modulo 4
  or a character outside the alphabet is an error (\<open>None\<close>), and the 6-bit values are
  regrouped into bytes, the spare bits of the last group being dropped.
\<close>

definition isAsciiWhitespace :: "char \<Rightarrow> bool" where
  "isAsciiWhitespace c = (of_char c \<in> {9, 10, 12, 13, 32 :: nat})"

definition base64Value :: "char \<Rightarrow> nat option" where
  "base64Value c =
     (let n = of_char c :: nat
      in if 65 \<le> n \<and> n \<le> 90 then Some (n - 65)
         else if 97 \<le> n \<and> n \<le> 122 then Some (n - 71)
         else if 48 \<le> n \<and> n \<le> 57 then Some (n + 4)
         else if n = 43 then Some 62
         else if n = 47 then Some 63
         else None)"

fun base64Bytes :: "nat list \<Rightarrow> string" where
  "base64Bytes (a # b # c # d # rest) =
     (let n = ((a * 64 + b) * 64 + c) * 64 + d
      in char_of (n div 65536) # char_of (n div 256) # char_of n # base64Bytes rest)"
| "base64Bytes [a, b, c] =
     (let n = ((a * 64 + b) * 64 + c) div 4
      in [char_of (n div 256), char_of n])"
| "base64Bytes [a, b] = [char_of ((a * 64 + b) div 16)]"
| "base64Bytes _ = []"

definition atob :: "string \<Rightarrow> string option" where
  "atob data_in =
     (let d = filter (\<lambda>c. \<not> isAsciiWhitespace c) data_in;
          d1 = (if length d mod 4 = 0
                then (if 2 \<le> length d \<and> drop (length d - 2) d = ''==''
                      then take (length d - 2) d
                      else if 1 \<le> length d \<and> drop (length d - 1) d = ''=''
                      then take (length d - 1) d
                      else d)
                else d)
      in if length d1 mod 4 = 1 then None
         else if \<exists>c \<in> set d1. base64Value c = None then None
         else Some (base64Bytes (map (\<lambda>c. the (base64Value c)) d1)))"

subsection \<open>clampUint16, decodeValue, readOutshiftNumber\<close>

definition clampUint16 :: "Number \<Rightarrow> Number" where
  "clampUint16 v =
     (let rounded = Math_round v
      in if Number_isNaN rounded then Fin 0
         else if num_less rounded (Fin 0) then Fin 0
         else if num_less (Fin MAX_UINT16) rounded
         then num_rem rounded (Fin (MAX_UINT16 + 1))
         else rounded)"

text \<open>
  A field that is \<open>null\<close>, \<open>undefined\<close> or absent is \<open>None\<close>; the empty string is falsy
  as well. \<open>atob\<close> throwing is caught inside \<open>decodeValue\<close>.
\<close>

definition decodeValue :: "string option \<Rightarrow> OutshiftEncoding \<Rightarrow> string option" where
  "decodeValue v enc =
     (case v of
        None \<Rightarrow> None
      | Some s \<Rightarrow>
          if s = [] then None
          else if enc = Raw then Some (trim s)
          else (case atob s of None \<Rightarrow> None | Some d \<Rightarrow> Some (trim d)))"

text \<open>
  One of the four blocks of \<open>readOutshiftNumber\<close>: the decoded field, if there is one,
  is parsed in the block's radix, and the block returns when the result is finite.
\<close>

definition parseField :: "string option \<Rightarrow> nat \<Rightarrow> Number option" where
  "parseField decoded radix =
     (case decoded of
        None \<Rightarrow> None
      | Some s \<Rightarrow>
          let parsed = parseInt s radix
          in if Number_isFinite parsed then Some parsed else None)"

definition readOutshiftNumber :: "RandomNumberResp \<Rightarrow> Number option" where
  "readOutshiftNumber payload =
     (case random_numbers payload of
        None \<Rightarrow> None
      | Some [] \<Rightarrow> None
      | Some (entry # _) \<Rightarrow>
          let enc = (case encoding payload of None \<Rightarrow> Base64 | Some e \<Rightarrow> e)
          in case parseField (decodeValue (decimal entry) enc) 10 of
               Some parsed \<Rightarrow> Some parsed
             | None \<Rightarrow>
          (case parseField (decodeValue (hexadecimal entry) enc) 16 of
               Some parsed \<Rightarrow> Some parsed
             | None \<Rightarrow>
          (case parseField (decodeValue (binary entry) enc) 2 of
               Some parsed \<Rightarrow> Some parsed
             | None \<Rightarrow>
          (case parseField (decodeValue (octal entry) enc) 8 of
               Some parsed \<Rightarrow> Some parsed
             | None \<Rightarrow> None))))"

subsection \<open>getUint16 and getCrashMultiplier\<close>

text \<open>
  What the outside world contributes to one draw: whether \<open>fetch\<close> rejected, and if not
  the \<open>ok\<close> flag of the response and the result of \<open>response.json()\<close> (a rejection, or
  a value of the declared response type); and the element that
  \<open>crypto.getRandomValues\<close> writes into the \<open>Uint16Array\<close>.
\<close>

datatype JsonResult = JsonRejected | JsonValue RandomNumberResp

datatype FetchResult = FetchRejected | Response bool JsonResult

datatype Thrown = FetchError | JsonError | Error string

text \<open>The body of the \<open>try\<close> block up to the call of \<open>readOutshiftNumber\<close>; \<open>Inl\<close> is a throw.\<close>

definition tryRemote :: "FetchResult \<Rightarrow> Thrown + Number" where
  "tryRemote res =
     (case res of
        FetchRejected \<Rightarrow> Inl FetchError
      | Response ok body \<Rightarrow>
          if \<not> ok then Inl (Error ''QRNG fetch failed'')
          else (case body of
                  JsonRejected \<Rightarrow> Inl JsonError
                | JsonValue data \<Rightarrow>
                    (case readOutshiftNumber data of
                       None \<Rightarrow> Inl (Error ''QRNG response invalid'')
                     | Some v \<Rightarrow> Inr v)))"

definition localFallback :: "16 word \<Rightarrow> RNG \<Rightarrow> Number \<times> RNG" where
  "localFallback fallback rng = (Fin (of_nat (unat fallback)), rng\<lparr>isQuantum := False\<rparr>)"

definition getUint16 :: "bool \<Rightarrow> FetchResult \<Rightarrow> 16 word \<Rightarrow> RNG \<Rightarrow> Number \<times> RNG" where
  "getUint16 SHOULD_USE_QRNG res fallback rng =
     (if \<not> SHOULD_USE_QRNG then localFallback fallback rng
      else (case tryRemote res of
              Inr v \<Rightarrow> (clampUint16 v, rng\<lparr>isQuantum := True\<rparr>)
            | Inl _ \<Rightarrow> localFallback fallback rng))"

definition crashMultiplierOf :: "Number \<Rightarrow> Number" where
  "crashMultiplierOf r =
     (let u = num_div (num_add r (Fin 1)) (Fin 65536)
      in Math_min (Fin MAX_MULTIPLIER) (num_div (Fin (1 - HOUSE_EDGE)) u))"

definition getCrashMultiplier :: "bool \<Rightarrow> FetchResult \<Rightarrow> 16 word \<Rightarrow> RNG \<Rightarrow> Number \<times> RNG" where
  "getCrashMultiplier SHOULD_USE_QRNG res fallback rng =
     (let (r, rng') = getUint16 SHOULD_USE_QRNG res fallback rng
      in (crashMultiplierOf r, rng'))"

section \<open>Notions used to state the properties\<close>

text \<open>
  A settlement is announced by \<open>ui.setLastResult\<close>, which only \<open>cashOut\<close> and \<open>crash\<close>
  call. \<open>newCalls g g'\<close> are the calls logged between \<open>g\<close> and a later state \<open>g'\<close>.
\<close>

fun isSettlement :: "UICall \<Rightarrow> bool" where
  "isSettlement (SetLastResult _ _) = True"
| "isSettlement _ = False"

definition newCalls :: "Game \<Rightarrow> Game \<Rightarrow> UICall list" where
  "newCalls g g' = drop (length (ui g)) (ui g')"

definition settled :: "Game \<Rightarrow> bool" where
  "settled g \<longleftrightarrow> state g = CASHED_OUT \<or> state g = CRASHED"

text \<open>
  The parsing rule in the specification's words: the fields of the record in the order
  decimal, hexadecimal, binary, octal, each decoded by the envelope encoding (base64:
  decode, then trim; raw: trim only) and parsed in its radix; the first finite result wins,
  and there is no result when no field gives one.
\<close>

definition spec_envelopeDecode :: "OutshiftEncoding \<Rightarrow> string \<Rightarrow> string option" where
  "spec_envelopeDecode enc s =
     (case enc of Base64 \<Rightarrow> map_option trim (atob s) | Raw \<Rightarrow> Some (trim s))"

definition spec_parseRadix :: "OutshiftEncoding \<Rightarrow> string option \<times> nat \<Rightarrow> Number option" where
  "spec_parseRadix enc fr =
     (case fst fr of
        None \<Rightarrow> None
      | Some s \<Rightarrow>
          (case spec_envelopeDecode enc s of
             None \<Rightarrow> None
           | Some t \<Rightarrow>
               if Number_isFinite (parseInt t (snd fr)) then Some (parseInt t (snd fr))
               else None))"

definition spec_priority :: "RandomNumberField \<Rightarrow> (string option \<times> nat) list" where
  "spec_priority entry =
     [(decimal entry, 10), (hexadecimal entry, 16), (binary entry, 2), (octal entry, 8)]"

definition spec_firstFinite :: "OutshiftEncoding \<Rightarrow> RandomNumberField \<Rightarrow> Number option" where
  "spec_firstFinite enc entry =
     (case List.map_filter (spec_parseRadix enc) (spec_priority entry) of
        [] \<Rightarrow> None
      | v # _ \<Rightarrow> Some v)"

section \<open>Properties of the round engine\<close>

subsection \<open>The invariant holds in every reachable state\<close>

lemma engine_inv_newGame: "engine_inv newGame"
  by (simp add: engine_inv_def newGame_def)

lemmas consts_defs = COST_TO_PLAY_def START_BALANCE_def MAX_MULTIPLIER_def HOUSE_EDGE_def
  TARGET_MULTIPLIER_def TARGET_TIME_def

lemma GROWTH_K_pos: "0 < GROWTH_K"
  by (simp add: GROWTH_K_def consts_defs)

lemma emit_simps [simp]:
  "state (emit c g) = state g" "balance (emit c g) = balance g"
  "currentMultiplier (emit c g) = currentMultiplier g"
  "crashMultiplier (emit c g) = crashMultiplier g"
  "roundTime (emit c g) = roundTime g" "endTimer (emit c g) = endTimer g"
  "cashoutLocked (emit c g) = cashoutLocked g" "crashLocked (emit c g) = crashLocked g"
  "history (emit c g) = history g" "lastTickStep (emit c g) = lastTickStep g"
  "ui (emit c g) = ui g @ [c]"
  by (simp_all add: emit_def)

lemma recordHistory_simps [simp]:
  "state (recordHistory v h g) = state g" "balance (recordHistory v h g) = balance g"
  "currentMultiplier (recordHistory v h g) = currentMultiplier g"
  "crashMultiplier (recordHistory v h g) = crashMultiplier g"
  "roundTime (recordHistory v h g) = roundTime g" "endTimer (recordHistory v h g) = endTimer g"
  "cashoutLocked (recordHistory v h g) = cashoutLocked g"
  "crashLocked (recordHistory v h g) = crashLocked g"
  "history (recordHistory v h g) = take 12 ((min MAX_MULTIPLIER v, h) # history g)"
  "lastTickStep (recordHistory v h g) = lastTickStep g"
  "ui (recordHistory v h g) = ui g @ [SetHistory (take 12 ((min MAX_MULTIPLIER v, h) # history g))]"
  by (simp_all add: recordHistory_def Let_def)

lemma engine_inv_begin: "engine_inv g \<Longrightarrow> engine_inv (startRound_begin g)"
  by (auto simp: engine_inv_def startRound_begin_def Let_def)

lemma engine_inv_resume: "engine_inv g \<Longrightarrow> engine_inv (startRound_resume c g)"
  by (auto simp: engine_inv_def startRound_resume_def Let_def MAX_MULTIPLIER_def)

lemma engine_inv_cashOut: "engine_inv g \<Longrightarrow> engine_inv (cashOut g)"
  by (auto simp: engine_inv_def cashOut_def Let_def)

lemma engine_inv_crash: "engine_inv g \<Longrightarrow> engine_inv (crash g)"
  by (auto simp: engine_inv_def crash_def Let_def)

lemma engine_inv_resetRound: "engine_inv (resetRound g)"
  by (auto simp: engine_inv_def resetRound_def Let_def)

lemma engine_inv_update_settled: "engine_inv g \<Longrightarrow> engine_inv (update_settled dt g)"
  by (auto simp: update_settled_def Let_def engine_inv_resetRound) (auto simp: engine_inv_def)

lemma crash_fields:
  "state g = RUNNING \<Longrightarrow> \<not> crashLocked g \<Longrightarrow>
   state (crash g) = CRASHED \<and> balance (crash g) = balance g \<and>
   currentMultiplier (crash g) = currentMultiplier g \<and>
   crashMultiplier (crash g) = crashMultiplier g \<and>
   roundTime (crash g) = roundTime g \<and> endTimer (crash g) = 16 / 10 \<and>
   history (crash g) = take 12 ((min MAX_MULTIPLIER (crashMultiplier g), None) # history g)"
  by (simp add: crash_def Let_def)

lemma update_running_fields:
  assumes "state g = RUNNING" "\<not> crashLocked g"
  shows "state (update_running dt g) =
           (if crashMultiplier g \<le> min MAX_MULTIPLIER (exp (GROWTH_K * (roundTime g + dt)))
            then CRASHED else RUNNING)"
    and "currentMultiplier (update_running dt g) =
           min MAX_MULTIPLIER (exp (GROWTH_K * (roundTime g + dt)))"
    and "roundTime (update_running dt g) = roundTime g + dt"
    and "crashMultiplier (update_running dt g) = crashMultiplier g"
    and "balance (update_running dt g) = balance g"
    and "cashoutLocked (update_running dt g) = cashoutLocked g"
    and "crashMultiplier g \<le> min MAX_MULTIPLIER (exp (GROWTH_K * (roundTime g + dt))) \<or>
         crashLocked (update_running dt g) = crashLocked g"
  using assms
  by (simp_all add: update_running_def Let_def crash_def)

lemma engine_inv_update_running:
  assumes "engine_inv g" "0 \<le> dt"
  shows "engine_inv (update_running dt g)"
proof (cases "state g = RUNNING")
  case False
  then show ?thesis using assms by (simp add: update_running_def)
next
  case True
  with assms(1) have nl: "\<not> crashLocked g" "\<not> cashoutLocked g" and t: "0 \<le> roundTime g"
    by (simp_all add: engine_inv_def)
  note f = update_running_fields [OF True nl(1), of dt]
  show ?thesis
  proof (cases "crashMultiplier g \<le> min MAX_MULTIPLIER (exp (GROWTH_K * (roundTime g + dt)))")
    case True
    then show ?thesis using f(1) by (simp add: engine_inv_def)
  next
    case False
    have s: "state (update_running dt g) = RUNNING"
      using f(1) False by (simp only: if_False)
    have cl: "\<not> crashLocked (update_running dt g)"
      using f(7) False nl(1) by blast
    have lt: "currentMultiplier (update_running dt g) < crashMultiplier (update_running dt g)"
      using False by (simp only: f(2,4) not_le)
    have rt: "0 \<le> roundTime (update_running dt g)"
      using t assms(2) by (simp add: f(3))
    have cm: "currentMultiplier (update_running dt g) =
        min MAX_MULTIPLIER (exp (GROWTH_K * roundTime (update_running dt g)))"
      by (simp only: f(2,3))
    have co: "\<not> cashoutLocked (update_running dt g)"
      using nl(2) by (simp add: f(6))
    show ?thesis
      unfolding engine_inv_def using s cl lt rt cm co by simp
  qed
qed

lemma engine_inv_step: "engine_inv g \<Longrightarrow> okEvent e \<Longrightarrow> engine_inv (step e g)"
  by (cases e) (simp_all add: engine_inv_begin engine_inv_resume engine_inv_cashOut
      update_def engine_inv_update_settled engine_inv_update_running)

lemma reachable_engine_inv: "reachable g \<Longrightarrow> engine_inv g"
  by (induction rule: reachable.induct) (simp_all add: engine_inv_newGame engine_inv_step)

subsection \<open>Settled states, and a running example state\<close>

lemma settled_noop:
  assumes "settled g"
  shows "cashOut g = g" "crash g = g" "startRound_begin g = g" "startRound_resume c g = g"
    "update_running dt g = g"
  using assms
  by (auto simp: settled_def cashOut_def crash_def startRound_begin_def startRound_resume_def
      update_running_def)

lemma update_settled_fields:
  assumes "settled g"
  shows "balance (update_settled dt g) = balance g"
    and "history (update_settled dt g) = history g"
    and "state (update_settled dt g) = (if endTimer g - dt \<le> 0 then IDLE else state g)"
    and "filter isSettlement (newCalls g (update_settled dt g)) = []"
  using assms
  by (auto simp: settled_def update_settled_def resetRound_def Let_def newCalls_def)

lemmas engine_defs = startRound_begin_def startRound_resume_def cashOut_def crash_def
  resetRound_def update_def update_running_def update_settled_def newGame_def
  recordHistory_def emit_def Let_def

lemma ex_running:
  "startRound_resume c (startRound_begin newGame) =
     \<lparr>state = RUNNING, balance = 90, currentMultiplier = 1, crashMultiplier = c,
      roundTime = 0, endTimer = 0, cashoutLocked = False, crashLocked = False,
      history = [], lastTickStep = 10,
      ui = [SetBalance 100, SetPotential 10, SetState IDLE, SetHistory [],
            ClearBanner, ClearMegaWin, SetState FETCHING_RNG, SetBalance 90,
            SetMultiplier 1, SetPotential 10, SetState RUNNING]\<rparr>"
  by (simp add: engine_defs consts_defs)

lemma ex_running_reachable: "reachable (startRound_resume c (startRound_begin newGame))"
proof -
  have "reachable (step Play newGame)"
    by (rule reach_step [OF reach_new]) simp
  then have "reachable (step (Resolved c) (step Play newGame))"
    by (rule reach_step) simp
  then show ?thesis by simp
qed

subsection \<open>C1: settlement happens once\<close>

text \<open>
  Claim C1. Once the engine is in \<open>CASHED_OUT\<close> or \<open>CRASHED\<close>, \<open>cashOut\<close> and \<open>crash\<close>
  return the state unchanged, and no event changes the balance or the recorded history
  or announces another result; the state stays as it is until a frame resets it to \<open>IDLE\<close>.
\<close>

theorem settlement_exactly_once:
  assumes "settled g"
  shows "cashOut g = g \<and> crash g = g \<and>
         balance (step e g) = balance g \<and> history (step e g) = history g \<and>
         filter isSettlement (newCalls g (step e g)) = [] \<and>
         (state (step e g) = state g \<or> state (step e g) = IDLE)"
proof (cases e)
  case (Tick dt)
  then show ?thesis
    using settled_noop [OF assms] update_settled_fields [OF assms, of dt]
    by (simp add: update_def)
qed (simp_all add: settled_noop [OF assms] newCalls_def)

theorem settlement_exactly_once_witness:
  "settled (cashOut (startRound_resume 5 (startRound_begin newGame))) \<and>
   cashOut (cashOut (startRound_resume 5 (startRound_begin newGame))) =
     cashOut (startRound_resume 5 (startRound_begin newGame)) \<and>
   balance (step CashOutReq (cashOut (startRound_resume 5 (startRound_begin newGame)))) = 100"
proof -
  have s: "settled (cashOut (startRound_resume 5 (startRound_begin newGame)))"
    by (simp add: ex_running settled_def cashOut_def Let_def consts_defs)
  have b: "balance (cashOut (startRound_resume 5 (startRound_begin newGame))) = 100"
    by (simp add: ex_running cashOut_def Let_def consts_defs)
  show ?thesis
    using settlement_exactly_once [OF s, of CashOutReq] s b by simp
qed

subsection \<open>A frame that reaches the crash threshold\<close>

lemma crash_calls:
  "state g = RUNNING \<Longrightarrow> \<not> crashLocked g \<Longrightarrow>
   ui (crash g) = ui g @
     [SetState CRASHED, SetLastResult Loss COST_TO_PLAY,
      ShowBanner CrashBanner (currentMultiplier g),
      AnimateReturn (COST_TO_PLAY * currentMultiplier g) 0,
      SetHistory (take 12 ((min MAX_MULTIPLIER (crashMultiplier g), None) # history g))]"
  by (simp add: crash_def Let_def)

lemma update_running_unfold:
  assumes "state g = RUNNING"
  shows "update_running dt g =
    (if crashMultiplier g \<le> min MAX_MULTIPLIER (exp (GROWTH_K * (roundTime g + dt)))
     then crash
       (g\<lparr>roundTime := roundTime g + dt,
          currentMultiplier := min MAX_MULTIPLIER (exp (GROWTH_K * (roundTime g + dt))),
          ui := ui g @
            [SetMultiplier (min MAX_MULTIPLIER (exp (GROWTH_K * (roundTime g + dt)))),
             SetPotential
               (COST_TO_PLAY * min MAX_MULTIPLIER (exp (GROWTH_K * (roundTime g + dt))))],
          lastTickStep :=
            max (lastTickStep g)
              \<lfloor>min MAX_MULTIPLIER (exp (GROWTH_K * (roundTime g + dt))) * 10\<rfloor>\<rparr>)
     else
        g\<lparr>roundTime := roundTime g + dt,
          currentMultiplier := min MAX_MULTIPLIER (exp (GROWTH_K * (roundTime g + dt))),
          ui := ui g @
            [SetMultiplier (min MAX_MULTIPLIER (exp (GROWTH_K * (roundTime g + dt)))),
             SetPotential
               (COST_TO_PLAY * min MAX_MULTIPLIER (exp (GROWTH_K * (roundTime g + dt))))],
          lastTickStep :=
            max (lastTickStep g)
              \<lfloor>min MAX_MULTIPLIER (exp (GROWTH_K * (roundTime g + dt))) * 10\<rfloor>\<rparr>)"
proof -
  define m where "m = min MAX_MULTIPLIER (exp (GROWTH_K * (roundTime g + dt)))"
  have "update_running dt g =
    (if crashMultiplier g \<le> m
     then crash
       (g\<lparr>roundTime := roundTime g + dt, currentMultiplier := m,
          ui := ui g @ [SetMultiplier m, SetPotential (COST_TO_PLAY * m)],
          lastTickStep := max (lastTickStep g) \<lfloor>m * 10\<rfloor>\<rparr>)
     else
        g\<lparr>roundTime := roundTime g + dt, currentMultiplier := m,
          ui := ui g @ [SetMultiplier m, SetPotential (COST_TO_PLAY * m)],
          lastTickStep := max (lastTickStep g) \<lfloor>m * 10\<rfloor>\<rparr>)"
    using assms
    by (cases "lastTickStep g < \<lfloor>m * 10\<rfloor>"; cases "crashMultiplier g \<le> m")
      (simp_all add: update_running_def Let_def emit_def m_def [symmetric] max_def)
  then show ?thesis unfolding m_def .
qed

lemma newCalls_append: "ui g' = ui g @ xs \<Longrightarrow> newCalls g g' = xs"
  by (simp add: newCalls_def)

lemma update_running_log:
  assumes "state g = RUNNING" "\<not> crashLocked g"
  shows "history (update_running dt g) =
           (if crashMultiplier g \<le> min MAX_MULTIPLIER (exp (GROWTH_K * (roundTime g + dt)))
            then take 12 ((min MAX_MULTIPLIER (crashMultiplier g), None) # history g)
            else history g)"
    and "filter isSettlement (newCalls g (update_running dt g)) =
           (if crashMultiplier g \<le> min MAX_MULTIPLIER (exp (GROWTH_K * (roundTime g + dt)))
            then [SetLastResult Loss COST_TO_PLAY] else [])"
    and "crashMultiplier g \<le> min MAX_MULTIPLIER (exp (GROWTH_K * (roundTime g + dt))) \<longrightarrow>
           endTimer (update_running dt g) = 16 / 10"
proof -
  define m where "m = min MAX_MULTIPLIER (exp (GROWTH_K * (roundTime g + dt)))"
  define G where "G = g\<lparr>roundTime := roundTime g + dt, currentMultiplier := m,
          ui := ui g @ [SetMultiplier m, SetPotential (COST_TO_PLAY * m)],
          lastTickStep := max (lastTickStep g) \<lfloor>m * 10\<rfloor>\<rparr>"
  have u: "update_running dt g = (if crashMultiplier g \<le> m then crash G else G)"
    unfolding G_def m_def by (rule update_running_unfold [OF assms(1)])
  have G: "state G = RUNNING" "\<not> crashLocked G" "history G = history g"
    "crashMultiplier G = crashMultiplier g"
    "ui G = ui g @ [SetMultiplier m, SetPotential (COST_TO_PLAY * m)]"
    using assms by (simp_all add: G_def)
  note cf = crash_fields [OF G(1,2)]
  note cc = crash_calls [OF G(1,2)]
  have h: "history (update_running dt g) =
           (if crashMultiplier g \<le> m
            then take 12 ((min MAX_MULTIPLIER (crashMultiplier g), None) # history g)
            else history g)"
  proof (cases "crashMultiplier g \<le> m")
    case True
    then show ?thesis using cf by (simp only: u if_True G)
  next
    case False
    then show ?thesis by (simp only: u if_False G)
  qed
  have f: "filter isSettlement (newCalls g (update_running dt g)) =
           (if crashMultiplier g \<le> m then [SetLastResult Loss COST_TO_PLAY] else [])"
  proof (cases "crashMultiplier g \<le> m")
    case True
    have "ui (crash G) = ui g @ ([SetMultiplier m, SetPotential (COST_TO_PLAY * m)] @
        [SetState CRASHED, SetLastResult Loss COST_TO_PLAY,
         ShowBanner CrashBanner (currentMultiplier G),
         AnimateReturn (COST_TO_PLAY * currentMultiplier G) 0,
         SetHistory (take 12 ((min MAX_MULTIPLIER (crashMultiplier G), None) # history G))])"
      by (simp only: cc G append_assoc)
    then have "newCalls g (crash G) = [SetMultiplier m, SetPotential (COST_TO_PLAY * m)] @
        [SetState CRASHED, SetLastResult Loss COST_TO_PLAY,
         ShowBanner CrashBanner (currentMultiplier G),
         AnimateReturn (COST_TO_PLAY * currentMultiplier G) 0,
         SetHistory (take 12 ((min MAX_MULTIPLIER (crashMultiplier G), None) # history G))]"
      by (rule newCalls_append)
    then have "filter isSettlement (newCalls g (crash G)) = [SetLastResult Loss COST_TO_PLAY]"
      by simp
    with True show ?thesis by (simp only: u if_True)
  next
    case False
    have "newCalls g G = [SetMultiplier m, SetPotential (COST_TO_PLAY * m)]"
      by (rule newCalls_append) (rule G(5))
    then have "filter isSettlement (newCalls g G) = []"
      by simp
    with False show ?thesis by (simp only: u if_False)
  qed
  have e: "crashMultiplier g \<le> m \<longrightarrow> endTimer (update_running dt g) = 16 / 10"
  proof
    assume "crashMultiplier g \<le> m"
    then have "update_running dt g = crash G" by (simp only: u if_True)
    then show "endTimer (update_running dt g) = 16 / 10" using cf by simp
  qed
  show "history (update_running dt g) =
           (if crashMultiplier g \<le> min MAX_MULTIPLIER (exp (GROWTH_K * (roundTime g + dt)))
            then take 12 ((min MAX_MULTIPLIER (crashMultiplier g), None) # history g)
            else history g)"
    using h unfolding m_def .
  show "filter isSettlement (newCalls g (update_running dt g)) =
           (if crashMultiplier g \<le> min MAX_MULTIPLIER (exp (GROWTH_K * (roundTime g + dt)))
            then [SetLastResult Loss COST_TO_PLAY] else [])"
    using f unfolding m_def .
  show "crashMultiplier g \<le> min MAX_MULTIPLIER (exp (GROWTH_K * (roundTime g + dt))) \<longrightarrow>
           endTimer (update_running dt g) = 16 / 10"
    using e unfolding m_def .
qed

lemma update_running_crash:
  assumes "state g = RUNNING" "\<not> crashLocked g"
    and "crashMultiplier g \<le> min MAX_MULTIPLIER (exp (GROWTH_K * (roundTime g + dt)))"
  shows "state (update_running dt g) = CRASHED"
    and "balance (update_running dt g) = balance g"
    and "endTimer (update_running dt g) = 16 / 10"
    and "history (update_running dt g) =
           take 12 ((min MAX_MULTIPLIER (crashMultiplier g), None) # history g)"
    and "filter isSettlement (newCalls g (update_running dt g)) =
           [SetLastResult Loss COST_TO_PLAY]"
proof -
  note f = update_running_fields [OF assms(1,2), of dt]
  note l = update_running_log [OF assms(1,2), of dt]
  show "state (update_running dt g) = CRASHED"
    using f(1) assms(3) by (simp only: if_True)
  show "balance (update_running dt g) = balance g"
    by (rule f(5))
  show "endTimer (update_running dt g) = 16 / 10"
    using l(3) assms(3) by blast
  show "history (update_running dt g) =
           take 12 ((min MAX_MULTIPLIER (crashMultiplier g), None) # history g)"
    using l(1) assms(3) by (simp only: if_True)
  show "filter isSettlement (newCalls g (update_running dt g)) =
           [SetLastResult Loss COST_TO_PLAY]"
    using l(2) assms(3) by (simp only: if_True)
qed

lemma newCalls_trans:
  assumes "length (ui g) \<le> length (ui g')" "length (ui g') \<le> length (ui g'')"
    "take (length (ui g')) (ui g'') = ui g'"
  shows "newCalls g g'' = newCalls g g' @ newCalls g' g''"
proof -
  have "ui g'' = ui g' @ drop (length (ui g')) (ui g'')"
    using assms(3) by (metis append_take_drop_id)
  then have "drop (length (ui g)) (ui g'') =
      drop (length (ui g)) (ui g') @ drop (length (ui g')) (ui g'')"
    using assms(1) by (metis drop_append diff_is_0_eq drop0)
  then show ?thesis by (simp add: newCalls_def)
qed

lemma update_settled_ui:
  "length (ui g) \<le> length (ui (update_settled dt g)) \<and>
   take (length (ui g)) (ui (update_settled dt g)) = ui g"
  by (simp add: update_settled_def resetRound_def Let_def)

lemma update_running_ui_len: "length (ui g) \<le> length (ui (update_running dt g))"
  by (simp add: update_running_def crash_def Let_def)

subsection \<open>C3: the crash wins a tie\<close>

text \<open>
  Claim C3. In a frame in which the multiplier computed by \<open>update\<close> reaches the crash
  threshold, the round is settled once, as a crash: one result is announced and it is the
  loss, the balance is unchanged, the crash is recorded in the history, and the state is
  \<open>CRASHED\<close> (or already \<open>IDLE\<close> again when the frame is longer than the display time).
  A cash-out request made after that frame returns the state unchanged.
\<close>

theorem crash_wins_ties:
  assumes "reachable g" "state g = RUNNING"
    and "crashMultiplier g \<le> min MAX_MULTIPLIER (exp (GROWTH_K * (roundTime g + dt)))"
  shows "state (update dt g) = (if dt < 16 / 10 then CRASHED else IDLE) \<and>
         balance (update dt g) = balance g \<and>
         history (update dt g) =
           take 12 ((min MAX_MULTIPLIER (crashMultiplier g), None) # history g) \<and>
         filter isSettlement (newCalls g (update dt g)) = [SetLastResult Loss COST_TO_PLAY] \<and>
         cashOut (update dt g) = update dt g"
proof -
  have nl: "\<not> crashLocked g"
    using reachable_engine_inv [OF assms(1)] assms(2) by (simp add: engine_inv_def)
  note r = update_running_crash [OF assms(2) nl assms(3)]
  have s: "settled (update_running dt g)"
    using r(1) by (simp add: settled_def)
  note u = update_settled_fields [OF s, of dt]
  have st: "state (update dt g) = (if dt < 16 / 10 then CRASHED else IDLE)"
    using u(3) r(1,3) by (auto simp: update_def)
  have calls: "newCalls g (update dt g) =
      newCalls g (update_running dt g) @ newCalls (update_running dt g) (update dt g)"
    unfolding update_def
    by (rule newCalls_trans) (simp_all add: update_running_ui_len update_settled_ui)
  have "cashOut (update dt g) = update dt g"
    using st by (simp add: cashOut_def)
  then show ?thesis
    using st u(1,2,4) r(2,4,5) calls by (simp add: update_def)
qed

theorem crash_wins_ties_witness:
  "reachable (startRound_resume 2 (startRound_begin newGame)) \<and>
   state (startRound_resume 2 (startRound_begin newGame)) = RUNNING \<and>
   state (update 20 (startRound_resume 2 (startRound_begin newGame))) = IDLE \<and>
   balance (update 20 (startRound_resume 2 (startRound_begin newGame))) = 90 \<and>
   history (update 20 (startRound_resume 2 (startRound_begin newGame))) = [(2, None)]"
proof -
  have s: "state (startRound_resume 2 (startRound_begin newGame)) = RUNNING"
    by (simp add: ex_running)
  have c: "crashMultiplier (startRound_resume 2 (startRound_begin newGame))
      \<le> min MAX_MULTIPLIER
           (exp (GROWTH_K * (roundTime (startRound_resume 2 (startRound_begin newGame)) + 20)))"
    by (simp add: ex_running GROWTH_K_def consts_defs)
  show ?thesis
    using crash_wins_ties [OF ex_running_reachable s c] ex_running_reachable [of 2]
    by (simp add: ex_running consts_defs)
qed

subsection \<open>The curve, and frames that leave the round running\<close>

lemma live_curve_mono:
  "s \<le> t \<Longrightarrow> min MAX_MULTIPLIER (exp (GROWTH_K * s)) \<le> min MAX_MULTIPLIER (exp (GROWTH_K * t))"
proof -
  assume "s \<le> t"
  then have "GROWTH_K * s \<le> GROWTH_K * t"
    using GROWTH_K_pos by simp
  then have "exp (GROWTH_K * s) \<le> exp (GROWTH_K * t)" by simp
  then show ?thesis by (simp add: min_le_iff_disj)
qed

lemma live_curve_0: "min MAX_MULTIPLIER (exp (GROWTH_K * 0)) = 1"
  by (simp add: MAX_MULTIPLIER_def)

lemma live_curve_target: "min MAX_MULTIPLIER (exp (GROWTH_K * TARGET_TIME)) = TARGET_MULTIPLIER"
  by (simp add: GROWTH_K_def consts_defs)

lemma update_not_enter_running:
  "state g \<noteq> RUNNING \<Longrightarrow> state (update dt g) \<noteq> RUNNING"
  by (auto simp: update_def update_running_def update_settled_def resetRound_def Let_def)

lemma update_stays_running:
  assumes "state g = RUNNING" "\<not> crashLocked g" "state (update dt g) = RUNNING"
  shows "update dt g = update_running dt g"
    and "\<not> crashMultiplier g \<le> min MAX_MULTIPLIER (exp (GROWTH_K * (roundTime g + dt)))"
proof -
  note f = update_running_fields [OF assms(1,2), of dt]
  show c: "\<not> crashMultiplier g \<le> min MAX_MULTIPLIER (exp (GROWTH_K * (roundTime g + dt)))"
  proof
    assume le: "crashMultiplier g \<le> min MAX_MULTIPLIER (exp (GROWTH_K * (roundTime g + dt)))"
    have "state (update_running dt g) = CRASHED"
      using f(1) le by (simp only: if_True)
    then have "state (update dt g) \<noteq> RUNNING"
      by (auto simp: update_def update_settled_def resetRound_def Let_def)
    with assms(3) show False by simp
  qed
  have "state (update_running dt g) = RUNNING"
    using f(1) c by (simp only: if_False)
  then show "update dt g = update_running dt g"
    by (simp add: update_def update_settled_def)
qed

lemma ex_running_fields:
  "state (startRound_resume c (startRound_begin newGame)) = RUNNING"
  "balance (startRound_resume c (startRound_begin newGame)) = 90"
  "currentMultiplier (startRound_resume c (startRound_begin newGame)) = 1"
  "crashMultiplier (startRound_resume c (startRound_begin newGame)) = c"
  "roundTime (startRound_resume c (startRound_begin newGame)) = 0"
  "\<not> crashLocked (startRound_resume c (startRound_begin newGame))"
  "\<not> cashoutLocked (startRound_resume c (startRound_begin newGame))"
  "history (startRound_resume c (startRound_begin newGame)) = []"
  by (simp_all add: ex_running)

lemma ex_curve_20: "min MAX_MULTIPLIER (exp (GROWTH_K * (0 + 20))) = 34 / 10"
  using live_curve_target by (simp add: TARGET_TIME_def TARGET_MULTIPLIER_def)

lemma ex_tick20:
  "state (update 20 (startRound_resume 5 (startRound_begin newGame))) = RUNNING"
  "roundTime (update 20 (startRound_resume 5 (startRound_begin newGame))) = 20"
  "currentMultiplier (update 20 (startRound_resume 5 (startRound_begin newGame))) = 34 / 10"
  "balance (update 20 (startRound_resume 5 (startRound_begin newGame))) = 90"
  "\<not> cashoutLocked (update 20 (startRound_resume 5 (startRound_begin newGame)))"
proof -
  note f = update_running_fields [OF ex_running_fields(1) ex_running_fields(6),
      where c1 = 5 and dt = 20, unfolded ex_running_fields ex_curve_20]
  have s: "state (update_running 20 (startRound_resume 5 (startRound_begin newGame))) = RUNNING"
    using f(1) by simp
  then have e: "update 20 (startRound_resume 5 (startRound_begin newGame)) =
      update_running 20 (startRound_resume 5 (startRound_begin newGame))"
    by (simp add: update_def update_settled_def)
  show "state (update 20 (startRound_resume 5 (startRound_begin newGame))) = RUNNING"
    unfolding e by (rule s)
  show "roundTime (update 20 (startRound_resume 5 (startRound_begin newGame))) = 20"
    unfolding e using f(3) by simp
  show "currentMultiplier (update 20 (startRound_resume 5 (startRound_begin newGame))) = 34 / 10"
    unfolding e using f(2) by simp
  show "balance (update 20 (startRound_resume 5 (startRound_begin newGame))) = 90"
    unfolding e using f(5) by simp
  show "\<not> cashoutLocked (update 20 (startRound_resume 5 (startRound_begin newGame)))"
    unfolding e using f(6) ex_running_fields(7) by simp
qed

lemma ex_tick20_reachable:
  "reachable (update 20 (startRound_resume 5 (startRound_begin newGame)))"
proof -
  have "reachable (step (Tick 20) (startRound_resume 5 (startRound_begin newGame)))"
    by (rule reach_step [OF ex_running_reachable]) simp
  then show ?thesis by simp
qed

subsection \<open>C4: the live multiplier curve\<close>

text \<open>
  Claim C4. In every reachable \<open>RUNNING\<close> state the live multiplier is
  \<open>min(MAX_MULTIPLIER, exp(k * t))\<close> for the elapsed round time \<open>t\<close>, with
  \<open>k = ln(3.4) / 20\<close>: it is 1 at \<open>t = 0\<close>, it is 3.4 at \<open>t = 20\<close> (exactly, over the
  reals), and a frame of non-negative length that leaves the round running adds its length
  to \<open>t\<close> and does not lower the multiplier.
\<close>

theorem live_multiplier_curve:
  assumes "reachable g" "state g = RUNNING"
  shows "currentMultiplier g = min MAX_MULTIPLIER (exp (ln (34 / 10) / 20 * roundTime g)) \<and>
         0 \<le> roundTime g \<and>
         (roundTime g = 0 \<longrightarrow> currentMultiplier g = 1) \<and>
         (roundTime g = 20 \<longrightarrow> currentMultiplier g = 34 / 10) \<and>
         (0 \<le> dt \<and> state (update dt g) = RUNNING \<longrightarrow>
            roundTime (update dt g) = roundTime g + dt \<and>
            currentMultiplier g \<le> currentMultiplier (update dt g)) \<and>
         (s \<le> t \<longrightarrow>
            min MAX_MULTIPLIER (exp (GROWTH_K * s)) \<le> min MAX_MULTIPLIER (exp (GROWTH_K * t)))"
proof -
  have inv: "engine_inv g" by (rule reachable_engine_inv [OF assms(1)])
  have k: "GROWTH_K = ln (34 / 10) / 20"
    by (simp add: GROWTH_K_def consts_defs)
  have cm: "currentMultiplier g = min MAX_MULTIPLIER (exp (GROWTH_K * roundTime g))"
    and rt: "0 \<le> roundTime g" and nl: "\<not> crashLocked g"
    using inv assms(2) by (simp_all add: engine_inv_def)
  have z: "roundTime g = 0 \<longrightarrow> currentMultiplier g = 1"
    using cm live_curve_0 by simp
  have t20: "roundTime g = 20 \<longrightarrow> currentMultiplier g = 34 / 10"
  proof
    assume "roundTime g = 20"
    then have "currentMultiplier g = min MAX_MULTIPLIER (exp (GROWTH_K * TARGET_TIME))"
      using cm by (simp add: TARGET_TIME_def)
    then show "currentMultiplier g = 34 / 10"
      by (simp only: live_curve_target TARGET_MULTIPLIER_def)
  qed
  have m: "0 \<le> dt \<and> state (update dt g) = RUNNING \<longrightarrow>
            roundTime (update dt g) = roundTime g + dt \<and>
            currentMultiplier g \<le> currentMultiplier (update dt g)"
  proof
    assume a: "0 \<le> dt \<and> state (update dt g) = RUNNING"
    then have e: "update dt g = update_running dt g"
      using update_stays_running(1) [OF assms(2) nl] by simp
    note f = update_running_fields [OF assms(2) nl, of dt]
    have "currentMultiplier g \<le> currentMultiplier (update dt g)"
      unfolding e f(2) cm using a by (intro live_curve_mono) simp
    then show "roundTime (update dt g) = roundTime g + dt \<and>
            currentMultiplier g \<le> currentMultiplier (update dt g)"
      using e f(3) by simp
  qed
  have cm': "currentMultiplier g = min MAX_MULTIPLIER (exp (ln (34 / 10) / 20 * roundTime g))"
    using cm by (simp only: k)
  have mono: "s \<le> t \<longrightarrow>
      min MAX_MULTIPLIER (exp (GROWTH_K * s)) \<le> min MAX_MULTIPLIER (exp (GROWTH_K * t))"
    using live_curve_mono by blast
  show ?thesis by (intro conjI) (rule cm' rt z t20 m mono)+
qed

theorem live_multiplier_curve_witness:
  "reachable (update 20 (startRound_resume 5 (startRound_begin newGame))) \<and>
   state (update 20 (startRound_resume 5 (startRound_begin newGame))) = RUNNING \<and>
   roundTime (update 20 (startRound_resume 5 (startRound_begin newGame))) = 20 \<and>
   currentMultiplier (update 20 (startRound_resume 5 (startRound_begin newGame))) = 34 / 10 \<and>
   roundTime (startRound_resume 5 (startRound_begin newGame)) = 0 \<and>
   currentMultiplier (startRound_resume 5 (startRound_begin newGame)) = 1 \<and>
   (0::real) \<le> 20 \<and>
   currentMultiplier (startRound_resume 5 (startRound_begin newGame))
     \<le> currentMultiplier (update 20 (startRound_resume 5 (startRound_begin newGame))) \<and>
   min MAX_MULTIPLIER (exp (GROWTH_K * 0)) \<le> min MAX_MULTIPLIER (exp (GROWTH_K * 20))"
proof -
  have s0: "state (startRound_resume 5 (startRound_begin newGame)) = RUNNING"
    by (simp add: ex_running)
  have r0: "roundTime (startRound_resume 5 (startRound_begin newGame)) = 0"
    by (simp add: ex_running)
  have s1: "state (update 20 (startRound_resume 5 (startRound_begin newGame))) = RUNNING"
    by (rule ex_tick20)
  have r1: "roundTime (update 20 (startRound_resume 5 (startRound_begin newGame))) = 20"
    by (rule ex_tick20)
  have z: "(0::real) \<le> 20" by simp
  note a = live_multiplier_curve [OF ex_tick20_reachable s1, of 0 0 20]
  note b = live_multiplier_curve [OF ex_running_reachable s0, of 20 0 20]
  have c1: "currentMultiplier (update 20 (startRound_resume 5 (startRound_begin newGame))) = 34 / 10"
    using a r1 by blast
  have c0: "currentMultiplier (startRound_resume 5 (startRound_begin newGame)) = 1"
    using b r0 by blast
  have m: "currentMultiplier (startRound_resume 5 (startRound_begin newGame))
     \<le> currentMultiplier (update 20 (startRound_resume 5 (startRound_begin newGame)))"
    using b s1 z by blast
  have f: "min MAX_MULTIPLIER (exp (GROWTH_K * 0)) \<le> min MAX_MULTIPLIER (exp (GROWTH_K * 20))"
    using a z by blast
  show ?thesis
    by (intro conjI) (rule ex_tick20_reachable s1 r1 c1 r0 c0 z m f)+
qed

subsection \<open>The steps that write the crash threshold\<close>

lemma step_enters_running:
  assumes "state g \<noteq> RUNNING" "state (step e g) = RUNNING"
  shows "\<exists>c. e = Resolved c \<and> state g = FETCHING_RNG \<and> crashMultiplier (step e g) = c"
proof (cases e)
  case Play
  then show ?thesis using assms
    by (auto simp: startRound_begin_def Let_def split: if_splits)
next
  case CashOutReq
  then show ?thesis using assms by (simp add: cashOut_def)
next
  case (Resolved c)
  then show ?thesis using assms
    by (auto simp: startRound_resume_def Let_def split: if_splits)
next
  case (Tick dt)
  then show ?thesis using assms update_not_enter_running [of g dt] by simp
qed

lemma state_cashOut:
  "state (cashOut g) = (if state g = RUNNING \<and> \<not> cashoutLocked g then CASHED_OUT else state g)"
  by (simp add: cashOut_def Let_def)

lemma crashMultiplier_cashOut: "crashMultiplier (cashOut g) = crashMultiplier g"
  by (simp add: cashOut_def Let_def)

lemma crashMultiplier_crash: "crashMultiplier (crash g) = crashMultiplier g"
  by (simp add: crash_def Let_def)

lemma crashMultiplier_update_running:
  "crashMultiplier (update_running dt g) = crashMultiplier g"
proof (cases "state g = RUNNING")
  case True
  show ?thesis
    by (simp only: update_running_unfold [OF True] crashMultiplier_crash if_distrib [of crashMultiplier])
       simp
next
  case False
  then show ?thesis by (simp add: update_running_def)
qed

lemma crashMultiplier_update_settled:
  "state (update_settled dt g) \<noteq> IDLE \<Longrightarrow>
   crashMultiplier (update_settled dt g) = crashMultiplier g"
  by (auto simp: update_settled_def resetRound_def Let_def split: if_splits)

lemma step_keeps_threshold:
  assumes "state g = RUNNING \<or> settled g" "state (step e g) \<noteq> IDLE"
  shows "crashMultiplier (step e g) = crashMultiplier g \<and> state (step e g) \<noteq> FETCHING_RNG"
proof (cases e)
  case Play
  then show ?thesis using assms by (auto simp: startRound_begin_def settled_def)
next
  case CashOutReq
  then show ?thesis using assms
    by (auto simp: crashMultiplier_cashOut state_cashOut settled_def split: if_splits)
next
  case (Resolved c)
  then show ?thesis using assms by (auto simp: startRound_resume_def settled_def)
next
  case (Tick dt)
  have a: "state (update_running dt g) \<noteq> FETCHING_RNG \<and> state (update_running dt g) \<noteq> IDLE"
  proof (cases "state g = RUNNING")
    case True
    show ?thesis
      by (simp only: update_running_unfold [OF True]) (simp add: crash_def Let_def True)
  next
    case False
    then show ?thesis using assms(1) by (auto simp: update_running_def settled_def)
  qed
  have b: "state (update dt g) \<noteq> FETCHING_RNG"
    using a by (auto simp: update_def update_settled_def resetRound_def Let_def)
  have "crashMultiplier (update dt g) = crashMultiplier (update_running dt g)"
    using assms(2) Tick crashMultiplier_update_settled [of dt "update_running dt g"]
    by (simp add: update_def)
  then show ?thesis using b Tick by (simp add: crashMultiplier_update_running)
qed

lemma update_running_below:
  assumes "reachable g" "state (update dt g) = RUNNING"
  shows "currentMultiplier (update dt g) < crashMultiplier (update dt g)"
proof -
  have r: "state g = RUNNING"
    using assms(2) update_not_enter_running [of g dt] by blast
  have nl: "\<not> crashLocked g"
    using reachable_engine_inv [OF assms(1)] r by (simp add: engine_inv_def)
  note s = update_stays_running [OF r nl assms(2)]
  note f = update_running_fields [OF r nl, of dt]
  show ?thesis
    using s(2) by (simp only: s(1) f(2) f(4) not_le)
qed

lemma ex_fetching_reachable: "reachable (startRound_begin newGame)"
proof -
  have "reachable (step Play newGame)"
    by (rule reach_step [OF reach_new]) simp
  then show ?thesis by simp
qed

lemma ex_fetching_fields:
  "state (startRound_begin newGame) = FETCHING_RNG"
  "balance (startRound_begin newGame) = 90"
  by (simp_all add: engine_defs consts_defs)

subsection \<open>C6: the crash threshold is fixed before the round runs\<close>

text \<open>
  Claim C6. The only step that enters \<open>RUNNING\<close> is the resumption of \<open>startRound\<close>, which
  stores the drawn crash multiplier in the same step; from then on no step changes
  \<open>crashMultiplier\<close>, and no new draw starts, until the round is reset to \<open>IDLE\<close>. After
  every frame that leaves the engine in \<open>RUNNING\<close> the live multiplier is strictly below
  the crash multiplier, and a frame in which the live multiplier reaches it does not leave
  the engine in \<open>RUNNING\<close>.
\<close>

theorem crash_threshold_fixed:
  assumes "reachable g"
  shows "(state g \<noteq> RUNNING \<and> state (step e g) = RUNNING \<longrightarrow>
            (\<exists>c. e = Resolved c \<and> state g = FETCHING_RNG \<and> crashMultiplier (step e g) = c)) \<and>
         ((state g = RUNNING \<or> settled g) \<and> state (step e g) \<noteq> IDLE \<longrightarrow>
            crashMultiplier (step e g) = crashMultiplier g \<and>
            state (step e g) \<noteq> FETCHING_RNG) \<and>
         (state (update dt g) = RUNNING \<longrightarrow>
            currentMultiplier (update dt g) < crashMultiplier (update dt g)) \<and>
         (state g = RUNNING \<and>
          crashMultiplier g \<le> min MAX_MULTIPLIER (exp (GROWTH_K * (roundTime g + dt))) \<longrightarrow>
            state (update dt g) \<noteq> RUNNING)"
proof (intro conjI impI)
  assume "state g \<noteq> RUNNING \<and> state (step e g) = RUNNING"
  then show "\<exists>c. e = Resolved c \<and> state g = FETCHING_RNG \<and> crashMultiplier (step e g) = c"
    using step_enters_running by blast
next
  assume a: "(state g = RUNNING \<or> settled g) \<and> state (step e g) \<noteq> IDLE"
  then show "crashMultiplier (step e g) = crashMultiplier g"
    using step_keeps_threshold by blast
  from a show "state (step e g) \<noteq> FETCHING_RNG"
    using step_keeps_threshold by blast
next
  assume "state (update dt g) = RUNNING"
  then show "currentMultiplier (update dt g) < crashMultiplier (update dt g)"
    by (rule update_running_below [OF assms])
next
  assume a: "state g = RUNNING \<and>
    crashMultiplier g \<le> min MAX_MULTIPLIER (exp (GROWTH_K * (roundTime g + dt)))"
  have nl: "\<not> crashLocked g"
    using reachable_engine_inv [OF assms] a by (simp add: engine_inv_def)
  show "state (update dt g) \<noteq> RUNNING"
  proof
    assume "state (update dt g) = RUNNING"
    then show False using update_stays_running(2) [of g dt] a nl by blast
  qed
qed

theorem crash_threshold_fixed_witness:
  "reachable (startRound_begin newGame) \<and>
   state (startRound_begin newGame) \<noteq> RUNNING \<and>
   state (step (Resolved 5) (startRound_begin newGame)) = RUNNING \<and>
   crashMultiplier (step (Resolved 5) (startRound_begin newGame)) = 5 \<and>
   reachable (startRound_resume 5 (startRound_begin newGame)) \<and>
   state (startRound_resume 5 (startRound_begin newGame)) = RUNNING \<and>
   state (step (Tick 20) (startRound_resume 5 (startRound_begin newGame))) \<noteq> IDLE \<and>
   crashMultiplier (step (Tick 20) (startRound_resume 5 (startRound_begin newGame))) = 5 \<and>
   state (update 20 (startRound_resume 5 (startRound_begin newGame))) = RUNNING \<and>
   currentMultiplier (update 20 (startRound_resume 5 (startRound_begin newGame)))
     < crashMultiplier (update 20 (startRound_resume 5 (startRound_begin newGame))) \<and>
   state (startRound_resume 2 (startRound_begin newGame)) = RUNNING \<and>
   crashMultiplier (startRound_resume 2 (startRound_begin newGame))
     \<le> min MAX_MULTIPLIER
          (exp (GROWTH_K * (roundTime (startRound_resume 2 (startRound_begin newGame)) + 20))) \<and>
   state (update 20 (startRound_resume 2 (startRound_begin newGame))) \<noteq> RUNNING"
proof -
  note a = crash_threshold_fixed [OF ex_fetching_reachable, of "Resolved 5" 0]
  note b = crash_threshold_fixed [OF ex_running_reachable, of 5 "Tick 20" 20]
  note c = crash_threshold_fixed [OF ex_running_reachable, of 2 "Tick 20" 20]
  have a1: "state (startRound_begin newGame) \<noteq> RUNNING"
    by (simp add: ex_fetching_fields)
  have a2: "state (step (Resolved 5) (startRound_begin newGame)) = RUNNING"
    by (simp add: ex_running_fields)
  have a3: "crashMultiplier (step (Resolved 5) (startRound_begin newGame)) = 5"
    using a a1 a2 by blast
  have b1: "state (startRound_resume 5 (startRound_begin newGame)) = RUNNING"
    by (rule ex_running_fields)
  have b2: "state (step (Tick 20) (startRound_resume 5 (startRound_begin newGame))) \<noteq> IDLE"
    by (simp add: ex_tick20)
  have b3: "crashMultiplier (step (Tick 20) (startRound_resume 5 (startRound_begin newGame))) = 5"
    using b b1 b2 ex_running_fields(4) [of 5] by metis
  have b4: "state (update 20 (startRound_resume 5 (startRound_begin newGame))) = RUNNING"
    by (rule ex_tick20)
  have b5: "currentMultiplier (update 20 (startRound_resume 5 (startRound_begin newGame)))
     < crashMultiplier (update 20 (startRound_resume 5 (startRound_begin newGame)))"
    using b b4 by blast
  have c1: "state (startRound_resume 2 (startRound_begin newGame)) = RUNNING"
    by (rule ex_running_fields)
  have c2: "crashMultiplier (startRound_resume 2 (startRound_begin newGame))
     \<le> min MAX_MULTIPLIER
          (exp (GROWTH_K * (roundTime (startRound_resume 2 (startRound_begin newGame)) + 20)))"
    by (simp add: ex_running_fields ex_curve_20 del: add_0)
  have c3: "state (update 20 (startRound_resume 2 (startRound_begin newGame))) \<noteq> RUNNING"
    using c c1 c2 by blast
  show ?thesis
    by (intro conjI)
      (rule ex_fetching_reachable a1 a2 a3 ex_running_reachable b1 b2 b3 b4 b5 c1 c2 c3)+
qed

subsection \<open>The balance along the operations\<close>

lemma balance_update: "balance (update dt g) = balance g"
proof -
  have r: "balance (update_running dt g) = balance g"
  proof (cases "state g = RUNNING")
    case True
    show ?thesis
      by (simp only: update_running_unfold [OF True] if_distrib [of balance])
         (simp add: crash_def Let_def)
  next
    case False
    then show ?thesis by (simp add: update_running_def)
  qed
  have "balance (update_settled dt (update_running dt g)) = balance (update_running dt g)"
    by (simp add: update_settled_def resetRound_def Let_def)
  then show ?thesis using r by (simp add: update_def)
qed

lemma cashOut_fields:
  assumes "state g = RUNNING" "\<not> cashoutLocked g"
  shows "state (cashOut g) = CASHED_OUT"
    and "balance (cashOut g) = balance g + COST_TO_PLAY * currentMultiplier g"
    and "filter isSettlement (newCalls g (cashOut g)) =
           [SetLastResult Win (COST_TO_PLAY * currentMultiplier g)]"
  using assms by (simp_all add: cashOut_def Let_def newCalls_def)

lemma startRound_begin_fields:
  assumes "state g = IDLE" "COST_TO_PLAY \<le> balance g"
  shows "state (startRound_begin g) = FETCHING_RNG"
    and "balance (startRound_begin g) = balance g - COST_TO_PLAY"
  using assms by (simp_all add: startRound_begin_def Let_def)

lemma balance_resume: "balance (startRound_resume c g) = balance g"
  by (simp add: startRound_resume_def Let_def)

lemma balance_crash: "balance (crash g) = balance g"
  by (simp add: crash_def Let_def)

lemma ex_tick:
  assumes "min MAX_MULTIPLIER (exp (GROWTH_K * (0 + dt))) = m" "m < c"
  shows "state (update dt (startRound_resume c (startRound_begin newGame))) = RUNNING"
    "roundTime (update dt (startRound_resume c (startRound_begin newGame))) = dt"
    "currentMultiplier (update dt (startRound_resume c (startRound_begin newGame))) = m"
    "balance (update dt (startRound_resume c (startRound_begin newGame))) = 90"
    "\<not> cashoutLocked (update dt (startRound_resume c (startRound_begin newGame)))"
proof -
  note f = update_running_fields [OF ex_running_fields(1) ex_running_fields(6),
      where c1 = c and dt = dt, unfolded ex_running_fields assms(1)]
  have s: "state (update_running dt (startRound_resume c (startRound_begin newGame))) = RUNNING"
    using f(1) assms(2) by simp
  then have e: "update dt (startRound_resume c (startRound_begin newGame)) =
      update_running dt (startRound_resume c (startRound_begin newGame))"
    by (simp add: update_def update_settled_def)
  show "state (update dt (startRound_resume c (startRound_begin newGame))) = RUNNING"
    unfolding e by (rule s)
  show "roundTime (update dt (startRound_resume c (startRound_begin newGame))) = dt"
    unfolding e using f(3) by simp
  show "currentMultiplier (update dt (startRound_resume c (startRound_begin newGame))) = m"
    unfolding e using f(2) by simp
  show "balance (update dt (startRound_resume c (startRound_begin newGame))) = 90"
    unfolding e using f(5) by simp
  show "\<not> cashoutLocked (update dt (startRound_resume c (startRound_begin newGame)))"
    unfolding e using f(6) ex_running_fields(7) by simp
qed

lemma ex_curve_2: "min MAX_MULTIPLIER (exp (GROWTH_K * (0 + ln 2 / GROWTH_K))) = 2"
proof -
  have "GROWTH_K * (0 + ln 2 / GROWTH_K) = ln 2"
    using GROWTH_K_pos by simp
  then show ?thesis by (simp add: MAX_MULTIPLIER_def)
qed

subsection \<open>C7: balance accounting\<close>

text \<open>
  Claim C7. The wager is 10. Starting a round debits it in the part of \<open>startRound\<close> that
  runs before the draw resolves, and the resumption leaves the balance alone. A cash-out
  credits the wager times the current multiplier and announces that amount as the win.
  A crash credits nothing, and no frame changes the balance. From a balance of 100, a
  cash-out at multiplier 2 gives 110 and a crash gives 90.
\<close>

theorem balance_accounting:
  "COST_TO_PLAY = 10 \<and>
   (state g = IDLE \<and> COST_TO_PLAY \<le> balance g \<longrightarrow>
      state (startRound_begin g) = FETCHING_RNG \<and>
      balance (startRound_begin g) = balance g - COST_TO_PLAY) \<and>
   balance (startRound_resume c g) = balance g \<and>
   (state g = RUNNING \<and> \<not> cashoutLocked g \<longrightarrow>
      state (cashOut g) = CASHED_OUT \<and>
      balance (cashOut g) = balance g + COST_TO_PLAY * currentMultiplier g \<and>
      filter isSettlement (newCalls g (cashOut g)) =
        [SetLastResult Win (COST_TO_PLAY * currentMultiplier g)]) \<and>
   balance (crash g) = balance g \<and>
   balance (update dt g) = balance g"
  using startRound_begin_fields [of g] cashOut_fields [of g]
  by (simp add: COST_TO_PLAY_def balance_resume balance_crash balance_update)

theorem balance_accounting_witness:
  "state newGame = IDLE \<and> balance newGame = 100 \<and> COST_TO_PLAY \<le> balance newGame \<and>
   balance (startRound_begin newGame) = 90 \<and>
   state (update (ln 2 / GROWTH_K) (startRound_resume 5 (startRound_begin newGame)))
     = RUNNING \<and>
   \<not> cashoutLocked
       (update (ln 2 / GROWTH_K) (startRound_resume 5 (startRound_begin newGame))) \<and>
   currentMultiplier
       (update (ln 2 / GROWTH_K) (startRound_resume 5 (startRound_begin newGame))) = 2 \<and>
   balance (cashOut
       (update (ln 2 / GROWTH_K) (startRound_resume 5 (startRound_begin newGame))))
     = 110 \<and>
   balance (crash (startRound_resume 5 (startRound_begin newGame))) = 90"
proof -
  note t = ex_tick [OF ex_curve_2, of 5]
  have lt: "(2::real) < 5" by simp
  note a = balance_accounting [of newGame 5 0]
  note b = balance_accounting
    [of "update (ln 2 / GROWTH_K) (startRound_resume 5 (startRound_begin newGame))" 5 0]
  note c = balance_accounting [of "startRound_resume 5 (startRound_begin newGame)" 5 0]
  have n: "state newGame = IDLE" "balance newGame = 100" "COST_TO_PLAY \<le> balance newGame"
    by (simp_all add: newGame_def consts_defs)
  have a1: "balance (startRound_begin newGame) = 90"
    using a n by simp
  have b1: "balance (cashOut
       (update (ln 2 / GROWTH_K) (startRound_resume 5 (startRound_begin newGame))))
     = 110"
  proof -
    have "balance (cashOut
       (update (ln 2 / GROWTH_K) (startRound_resume 5 (startRound_begin newGame))))
     = balance
       (update (ln 2 / GROWTH_K) (startRound_resume 5 (startRound_begin newGame))) +
       COST_TO_PLAY * currentMultiplier
       (update (ln 2 / GROWTH_K) (startRound_resume 5 (startRound_begin newGame)))"
      using b t(1) [OF lt] t(5) [OF lt] by blast
    then show ?thesis
      by (simp add: t(3) [OF lt] t(4) [OF lt] COST_TO_PLAY_def)
  qed
  have c1: "balance (crash (startRound_resume 5 (startRound_begin newGame))) = 90"
    using c ex_running_fields(2) [of 5] by simp
  show ?thesis
    by (intro conjI) (rule n t [OF lt] a1 b1 c1)+
qed

subsection \<open>Losing rounds until the balance is spent\<close>

lemma run_append: "run (xs @ ys) g = run ys (run xs g)"
  by (induction xs arbitrary: g) simp_all

lemma resume_fields:
  assumes "state g = FETCHING_RNG"
  shows "state (startRound_resume c g) = RUNNING"
    and "crashMultiplier (startRound_resume c g) = c"
  using assms by (simp_all add: startRound_resume_def Let_def)

lemma lose_round:
  assumes "reachable g" "state g = IDLE" "COST_TO_PLAY \<le> balance g"
  shows "reachable (run [Play, Resolved 1, Tick 2] g) \<and>
         state (run [Play, Resolved 1, Tick 2] g) = IDLE \<and>
         balance (run [Play, Resolved 1, Tick 2] g) = balance g - COST_TO_PLAY"
proof -
  define g1 where "g1 = startRound_begin g"
  define g2 where "g2 = startRound_resume 1 g1"
  have r1: "reachable g1"
    using reach_step [OF assms(1), of Play] by (simp add: g1_def)
  have r2: "reachable g2"
    using reach_step [OF r1, of "Resolved 1"] by (simp add: g2_def)
  have r3: "reachable (update 2 g2)"
    using reach_step [OF r2, of "Tick 2"] by simp
  have s1: "state g1 = FETCHING_RNG" and b1: "balance g1 = balance g - COST_TO_PLAY"
    unfolding g1_def by (rule startRound_begin_fields [OF assms(2,3)])+
  have s2: "state g2 = RUNNING" and c2: "crashMultiplier g2 = 1"
    unfolding g2_def by (rule resume_fields [OF s1])+
  have b2: "balance g2 = balance g - COST_TO_PLAY"
    using b1 by (simp add: g2_def balance_resume)
  have inv: "engine_inv g2" by (rule reachable_engine_inv [OF r2])
  have nl: "\<not> crashLocked g2" and t: "0 \<le> roundTime g2"
    using inv s2 by (simp_all add: engine_inv_def)
  have "0 \<le> GROWTH_K * (roundTime g2 + 2)"
    using GROWTH_K_pos t by simp
  then have "1 \<le> exp (GROWTH_K * (roundTime g2 + 2))" by simp
  then have c: "crashMultiplier g2 \<le> min MAX_MULTIPLIER (exp (GROWTH_K * (roundTime g2 + 2)))"
    by (simp add: c2 MAX_MULTIPLIER_def)
  note u = update_running_crash [OF s2 nl c]
  have st: "settled (update_running 2 g2)"
    using u(1) by (simp add: settled_def)
  have "state (update 2 g2) = IDLE"
    using update_settled_fields(3) [OF st, of 2] u(3) by (simp add: update_def)
  then show ?thesis
    using r3 b2 by (simp add: g1_def [symmetric] g2_def [symmetric] balance_update)
qed

lemma lose_rounds:
  assumes "reachable g" "state g = IDLE" "COST_TO_PLAY * real n \<le> balance g"
  shows "reachable (run (concat (replicate n [Play, Resolved 1, Tick 2])) g) \<and>
         state (run (concat (replicate n [Play, Resolved 1, Tick 2])) g) = IDLE \<and>
         balance (run (concat (replicate n [Play, Resolved 1, Tick 2])) g) =
           balance g - COST_TO_PLAY * real n"
  using assms
proof (induction n arbitrary: g)
  case 0
  then show ?case by simp
next
  case (Suc n)
  have c: "COST_TO_PLAY \<le> balance g"
    using Suc.prems(3) by (simp add: COST_TO_PLAY_def)
  note l = lose_round [OF Suc.prems(1,2) c]
  have "COST_TO_PLAY * real n \<le> balance (run [Play, Resolved 1, Tick 2] g)"
    using l Suc.prems(3) by (simp add: COST_TO_PLAY_def)
  then have "reachable (run (concat (replicate n [Play, Resolved 1, Tick 2]))
               (run [Play, Resolved 1, Tick 2] g)) \<and>
         state (run (concat (replicate n [Play, Resolved 1, Tick 2]))
               (run [Play, Resolved 1, Tick 2] g)) = IDLE \<and>
         balance (run (concat (replicate n [Play, Resolved 1, Tick 2]))
               (run [Play, Resolved 1, Tick 2] g)) =
           balance (run [Play, Resolved 1, Tick 2] g) - COST_TO_PLAY * real n"
    using l by (intro Suc.IH) simp_all
  moreover have "run (concat (replicate (Suc n) [Play, Resolved 1, Tick 2])) g =
      run (concat (replicate n [Play, Resolved 1, Tick 2])) (run [Play, Resolved 1, Tick 2] g)"
    by (simp only: replicate_Suc concat.simps run_append)
  ultimately show ?case using l by (simp add: algebra_simps)
qed

lemma ex_broke:
  "reachable (run (concat (replicate 10 [Play, Resolved 1, Tick 2])) newGame)"
  "state (run (concat (replicate 10 [Play, Resolved 1, Tick 2])) newGame) = IDLE"
  "balance (run (concat (replicate 10 [Play, Resolved 1, Tick 2])) newGame) = 0"
proof -
  have n: "state newGame = IDLE" "COST_TO_PLAY * real 10 \<le> balance newGame"
    by (simp_all add: newGame_def consts_defs)
  note l = lose_rounds [OF reach_new n]
  show "reachable (run (concat (replicate 10 [Play, Resolved 1, Tick 2])) newGame)"
    using l by blast
  show "state (run (concat (replicate 10 [Play, Resolved 1, Tick 2])) newGame) = IDLE"
    using l by blast
  have "balance (run (concat (replicate 10 [Play, Resolved 1, Tick 2])) newGame) =
      balance newGame - COST_TO_PLAY * real 10"
    using l by blast
  then show "balance (run (concat (replicate 10 [Play, Resolved 1, Tick 2])) newGame) = 0"
    by (simp add: newGame_def consts_defs)
qed

subsection \<open>C8: a start with too low a balance is rejected\<close>

text \<open>
  Claim C8. When \<open>startRound\<close> is called in \<open>IDLE\<close> with a balance below the wager, it
  returns after clearing the banner and showing the tooltip: every engine field, the state
  and the balance among them, is as before the call, and nothing is left to resume.
\<close>

theorem start_rejected_when_balance_low:
  assumes "state g = IDLE" "balance g < COST_TO_PLAY"
  shows "startRound_begin g =
           g\<lparr>ui := ui g @ [ClearBanner, ClearMegaWin, ShowTooltip ''Balance too low to play.'']\<rparr> \<and>
         state (startRound_begin g) = IDLE \<and> balance (startRound_begin g) = balance g \<and>
         startRound_resume c (startRound_begin g) = startRound_begin g"
  using assms by (simp add: startRound_begin_def startRound_resume_def emit_def Let_def)

theorem start_rejected_when_balance_low_witness:
  "reachable (run (concat (replicate 10 [Play, Resolved 1, Tick 2])) newGame) \<and>
   state (run (concat (replicate 10 [Play, Resolved 1, Tick 2])) newGame) = IDLE \<and>
   balance (run (concat (replicate 10 [Play, Resolved 1, Tick 2])) newGame) < COST_TO_PLAY \<and>
   state (startRound_begin (run (concat (replicate 10 [Play, Resolved 1, Tick 2])) newGame))
     = IDLE \<and>
   balance (startRound_begin (run (concat (replicate 10 [Play, Resolved 1, Tick 2])) newGame))
     = 0"
proof -
  have b: "balance (run (concat (replicate 10 [Play, Resolved 1, Tick 2])) newGame)
      < COST_TO_PLAY"
    by (simp add: ex_broke(3) COST_TO_PLAY_def)
  note t = start_rejected_when_balance_low [OF ex_broke(2) b, of 0]
  have s: "state (startRound_begin
      (run (concat (replicate 10 [Play, Resolved 1, Tick 2])) newGame)) = IDLE"
    using t by blast
  have "balance (startRound_begin
      (run (concat (replicate 10 [Play, Resolved 1, Tick 2])) newGame)) =
      balance (run (concat (replicate 10 [Play, Resolved 1, Tick 2])) newGame)"
    using t by blast
  then have c: "balance (startRound_begin
      (run (concat (replicate 10 [Play, Resolved 1, Tick 2])) newGame)) = 0"
    by (simp only: ex_broke(3))
  show ?thesis
    by (intro conjI) (rule ex_broke(1) ex_broke(2) b s c)+
qed

section \<open>Properties of the entropy source\<close>

subsection \<open>The value of the crash multiplier\<close>

lemma crashMultiplierOf_Fin:
  assumes "x + 1 \<noteq> 0"
  shows "crashMultiplierOf (Fin x) =
    Fin (min MAX_MULTIPLIER ((1 - HOUSE_EDGE) / ((x + 1) / 65536)))"
  using assms by (simp add: crashMultiplierOf_def Let_def)

lemma crash_value_bounds:
  fixes R :: int
  assumes "0 \<le> R" "R \<le> 65535"
  shows "94 / 100 \<le> min MAX_MULTIPLIER ((1 - HOUSE_EDGE) / ((of_int R + 1) / 65536))"
    and "min MAX_MULTIPLIER ((1 - HOUSE_EDGE) / ((of_int R + 1) / 65536)) \<le> MAX_MULTIPLIER"
    and "1 < min MAX_MULTIPLIER ((1 - HOUSE_EDGE) / ((of_int R + 1) / 65536)) \<longleftrightarrow> R \<le> 61602"
proof -
  have p: "(0::real) < of_int R + 1" using assms(1) by linarith
  have e: "(1 - HOUSE_EDGE) / ((of_int R + 1) / 65536) = (6160384 / 100) / (of_int R + 1)"
    by (simp add: HOUSE_EDGE_def)
  have u: "of_int R + 1 \<le> (65536 :: real)" using assms(2) by linarith
  have "94 / 100 \<le> (6160384 / 100) / (of_int R + 1 :: real)"
    using p u by (simp add: pos_le_divide_eq)
  then show "94 / 100 \<le> min MAX_MULTIPLIER ((1 - HOUSE_EDGE) / ((of_int R + 1) / 65536))"
    unfolding e by (simp add: MAX_MULTIPLIER_def)
  show "min MAX_MULTIPLIER ((1 - HOUSE_EDGE) / ((of_int R + 1) / 65536)) \<le> MAX_MULTIPLIER"
    by simp
  have "1 < (6160384 / 100) / (of_int R + 1 :: real) \<longleftrightarrow>
      1 * (of_int R + 1) < (6160384 / 100 :: real)"
    by (rule pos_less_divide_eq [OF p])
  also have "\<dots> \<longleftrightarrow> of_int R + 1 < (6160384 / 100 :: real)"
    by (simp only: mult_1)
  also have "\<dots> \<longleftrightarrow> R \<le> 61602"
  proof
    assume "of_int R + 1 < (6160384 / 100 :: real)"
    then have "(of_int R :: real) < of_int 61603" by simp
    then have "R < 61603" by (simp only: of_int_less_iff)
    then show "R \<le> 61602" by simp
  next
    assume "R \<le> 61602"
    then have "(of_int R :: real) \<le> of_int 61602" by (simp only: of_int_le_iff)
    then show "of_int R + 1 < (6160384 / 100 :: real)" by simp
  qed
  finally show "1 < min MAX_MULTIPLIER ((1 - HOUSE_EDGE) / ((of_int R + 1) / 65536)) \<longleftrightarrow> R \<le> 61602"
    unfolding e by (simp add: MAX_MULTIPLIER_def)
qed

lemma getCrashMultiplier_fst:
  "fst (getCrashMultiplier use res fb rng) = crashMultiplierOf (fst (getUint16 use res fb rng))"
  by (simp add: getCrashMultiplier_def split: prod.split)

subsection \<open>C2: the range of the crash multiplier\<close>

text \<open>
  Claim C2 says that the crash multiplier lies in \<open>(1, MAX_MULTIPLIER]\<close> for every drawn
  integer. The draw \<open>R = 65535\<close>, which the local fallback produces from the element
  \<open>0xFFFF\<close>, gives \<open>0.94\<close>.
\<close>

theorem crash_multiplier_range_counterexample:
  "fst (getUint16 False FetchRejected 65535 \<lparr>isQuantum = False\<rparr>) = Fin 65535 \<and>
   fst (getCrashMultiplier False FetchRejected 65535 \<lparr>isQuantum = False\<rparr>) = Fin (94 / 100) \<and>
   \<not> num_less (Fin 1) (Fin (94 / 100))"
  by (simp add: getCrashMultiplier_def getUint16_def localFallback_def crashMultiplierOf_def
      consts_defs)

text \<open>
  Claim C2, amended. For every drawn integer \<open>R\<close> in \<open>[0, 65535]\<close> the crash multiplier is
  \<open>min(25, (1 - 0.06) / ((R + 1) / 65536))\<close>; it lies in \<open>[0.94, 25]\<close>, and it is greater
  than 1 exactly when \<open>R \<le> 61602\<close>. \<open>getCrashMultiplier\<close> applies this formula to the
  result of \<open>getUint16\<close>.
\<close>

theorem crash_multiplier_formula:
  fixes R :: int
  assumes "0 \<le> R" "R \<le> 65535"
  shows "crashMultiplierOf (Fin (of_int R)) =
           Fin (min 25 ((1 - 6 / 100) / ((of_int R + 1) / 65536))) \<and>
         94 / 100 \<le> min (25 :: real) ((1 - 6 / 100) / ((of_int R + 1) / 65536)) \<and>
         min (25 :: real) ((1 - 6 / 100) / ((of_int R + 1) / 65536)) \<le> 25 \<and>
         (1 < min (25 :: real) ((1 - 6 / 100) / ((of_int R + 1) / 65536)) \<longleftrightarrow> R \<le> 61602) \<and>
         fst (getCrashMultiplier use res fb rng) =
           crashMultiplierOf (fst (getUint16 use res fb rng))"
proof -
  have nz: "(of_int R :: real) + 1 \<noteq> 0" using assms(1) by linarith
  note f = crashMultiplierOf_Fin [OF nz, unfolded MAX_MULTIPLIER_def HOUSE_EDGE_def]
  note b = crash_value_bounds [OF assms, unfolded MAX_MULTIPLIER_def HOUSE_EDGE_def]
  show ?thesis
    by (intro conjI) (rule f b getCrashMultiplier_fst)+
qed

theorem crash_multiplier_formula_witness:
  "(0::int) \<le> 0 \<and> (0::int) \<le> 65535 \<and> crashMultiplierOf (Fin (of_int 0)) = Fin 25 \<and>
   (0::int) \<le> 61602 \<and> (61602::int) \<le> 65535 \<and>
   (1::real) < min 25 ((1 - 6 / 100) / ((of_int 61602 + 1) / 65536))"
proof -
  have a: "(0::int) \<le> 0" "(0::int) \<le> 65535" "(0::int) \<le> 61602" "(61602::int) \<le> 65535"
    by simp_all
  note t0 = crash_multiplier_formula [OF a(1,2), of False FetchRejected 0 "\<lparr>isQuantum = False\<rparr>"]
  note t1 = crash_multiplier_formula [OF a(3,4), of False FetchRejected 0 "\<lparr>isQuantum = False\<rparr>"]
  have c0: "crashMultiplierOf (Fin (of_int 0)) = Fin 25"
    using t0 by simp
  have c1: "(1::real) < min 25 ((1 - 6 / 100) / ((of_int 61602 + 1) / 65536))"
    using t1 by blast
  show ?thesis
    by (intro conjI) (rule a c0 c1)+
qed

subsection \<open>A running round with a threshold below 1\<close>

lemma running_low_threshold:
  assumes "reachable g" "state g = RUNNING" "crashMultiplier g < 1"
  shows "roundTime g = 0" and "currentMultiplier g = 1"
    and "\<not> crashLocked g" and "\<not> cashoutLocked g"
    and "crashMultiplier g \<le> min MAX_MULTIPLIER (exp (GROWTH_K * (roundTime g + dt))) \<or> dt < 0"
proof -
  have inv: "engine_inv g" by (rule reachable_engine_inv [OF assms(1)])
  have cm: "currentMultiplier g = min MAX_MULTIPLIER (exp (GROWTH_K * roundTime g))"
    and t: "0 \<le> roundTime g"
    and d: "currentMultiplier g < crashMultiplier g \<or> roundTime g = 0"
    and l: "\<not> crashLocked g" "\<not> cashoutLocked g"
    using inv assms(2) unfolding engine_inv_def by blast+
  have "0 \<le> GROWTH_K * roundTime g"
    using GROWTH_K_pos t by simp
  then have "1 \<le> exp (GROWTH_K * roundTime g)" by simp
  then have "1 \<le> currentMultiplier g"
    by (simp add: cm MAX_MULTIPLIER_def)
  then show z: "roundTime g = 0"
    using d assms(3) by linarith
  show "currentMultiplier g = 1"
    by (simp add: cm z MAX_MULTIPLIER_def)
  show "\<not> crashLocked g" "\<not> cashoutLocked g" by (rule l)+
  show "crashMultiplier g \<le> min MAX_MULTIPLIER (exp (GROWTH_K * (roundTime g + dt))) \<or> dt < 0"
  proof (cases "dt < 0")
    case True
    then show ?thesis by simp
  next
    case False
    then have "0 \<le> GROWTH_K * (roundTime g + dt)"
      using GROWTH_K_pos t by simp
    then have "1 \<le> exp (GROWTH_K * (roundTime g + dt))" by simp
    then have "1 \<le> min MAX_MULTIPLIER (exp (GROWTH_K * (roundTime g + dt)))"
      by (simp add: MAX_MULTIPLIER_def)
    then show ?thesis using assms(3) by linarith
  qed
qed

lemma update_crash_summary:
  assumes "state g = RUNNING" "\<not> crashLocked g"
    and "crashMultiplier g \<le> min MAX_MULTIPLIER (exp (GROWTH_K * (roundTime g + dt)))"
  shows "state (update dt g) = (if dt < 16 / 10 then CRASHED else IDLE)"
    and "filter isSettlement (newCalls g (update dt g)) = [SetLastResult Loss COST_TO_PLAY]"
proof -
  note r = update_running_crash [OF assms]
  have s: "settled (update_running dt g)"
    using r(1) by (simp add: settled_def)
  note u = update_settled_fields [OF s, of dt]
  show "state (update dt g) = (if dt < 16 / 10 then CRASHED else IDLE)"
    using u(3) r(1,3) by (auto simp: update_def)
  have "newCalls g (update dt g) =
      newCalls g (update_running dt g) @ newCalls (update_running dt g) (update dt g)"
    unfolding update_def
    by (rule newCalls_trans) (simp_all add: update_running_ui_len update_settled_ui)
  then show "filter isSettlement (newCalls g (update dt g)) = [SetLastResult Loss COST_TO_PLAY]"
    using u(4) r(5) by (simp add: update_def)
qed

subsection \<open>C10: a draw of 61603 or more crashes the round at once\<close>

text \<open>
  Claim C10. For a drawn integer \<open>R\<close> from 61603 to 65535 the crash multiplier is below 1.
  A running round with that threshold has seen no frame yet: its multiplier is 1, so a
  cash-out pays back the wager and no more; and its first frame settles it as a crash,
  with the balance unchanged.
\<close>

theorem instant_crash_below_one:
  fixes R :: int
  assumes "61603 \<le> R" "R \<le> 65535"
  shows "(\<exists>c. crashMultiplierOf (Fin (of_int R)) = Fin c \<and> c < 1) \<and>
         (reachable g \<and> state g = RUNNING \<and>
          Fin (crashMultiplier g) = crashMultiplierOf (Fin (of_int R)) \<and> 0 \<le> dt \<longrightarrow>
            roundTime g = 0 \<and> currentMultiplier g = 1 \<and>
            state (update dt g) = (if dt < 16 / 10 then CRASHED else IDLE) \<and>
            filter isSettlement (newCalls g (update dt g)) = [SetLastResult Loss COST_TO_PLAY] \<and>
            balance (update dt g) = balance g \<and>
            balance (cashOut g) = balance g + COST_TO_PLAY)"
proof -
  have r0: "0 \<le> R" using assms(1) by simp
  have nz: "(of_int R :: real) + 1 \<noteq> 0" using r0 by linarith
  note f = crashMultiplierOf_Fin [OF nz]
  have "\<not> R \<le> 61602" using assms(1) by simp
  then have n1: "\<not> 1 < min MAX_MULTIPLIER ((1 - HOUSE_EDGE) / ((of_int R + 1) / 65536))"
    using crash_value_bounds(3) [OF r0 assms(2)] by blast
  have ne: "(1 - HOUSE_EDGE) / ((of_int R + 1) / 65536) \<noteq> 1"
  proof
    assume "(1 - HOUSE_EDGE) / ((of_int R + 1) / 65536) = 1"
    then have "(of_int R + 1 :: real) = 6160384 / 100"
      using nz by (simp add: HOUSE_EDGE_def field_simps)
    then have "(of_int (100 * R + 100) :: real) = of_int 6160384" by simp
    then have "100 * R + 100 = 6160384" by (simp only: of_int_eq_iff)
    then show False by presburger
  qed
  have lt: "min MAX_MULTIPLIER ((1 - HOUSE_EDGE) / ((of_int R + 1) / 65536)) < 1"
  proof -
    define v where "v = (1 - HOUSE_EDGE) / ((of_int R + 1) / 65536)"
    have "\<not> 1 < min 25 v"
      using n1 unfolding v_def MAX_MULTIPLIER_def .
    moreover have "v \<noteq> 1"
      using ne unfolding v_def .
    ultimately
    have "min 25 v < 1" by (auto simp: min_def split: if_splits)
    then show ?thesis by (simp only: v_def MAX_MULTIPLIER_def)
  qed
  have a: "\<exists>c. crashMultiplierOf (Fin (of_int R)) = Fin c \<and> c < 1"
    using f lt by blast
  have b: "reachable g \<and> state g = RUNNING \<and>
          Fin (crashMultiplier g) = crashMultiplierOf (Fin (of_int R)) \<and> 0 \<le> dt \<longrightarrow>
            roundTime g = 0 \<and> currentMultiplier g = 1 \<and>
            state (update dt g) = (if dt < 16 / 10 then CRASHED else IDLE) \<and>
            filter isSettlement (newCalls g (update dt g)) = [SetLastResult Loss COST_TO_PLAY] \<and>
            balance (update dt g) = balance g \<and>
            balance (cashOut g) = balance g + COST_TO_PLAY"
  proof
    assume h: "reachable g \<and> state g = RUNNING \<and>
          Fin (crashMultiplier g) = crashMultiplierOf (Fin (of_int R)) \<and> 0 \<le> dt"
    then have "crashMultiplier g = min MAX_MULTIPLIER ((1 - HOUSE_EDGE) / ((of_int R + 1) / 65536))"
      using f by simp
    then have c: "crashMultiplier g < 1" using lt by simp
    have rg: "reachable g" and sg: "state g = RUNNING" and dt: "0 \<le> dt" using h by simp_all
    note l = running_low_threshold [OF rg sg c]
    have le: "crashMultiplier g \<le> min MAX_MULTIPLIER (exp (GROWTH_K * (roundTime g + dt)))"
      using l(5) [of dt] dt by linarith
    note u = update_crash_summary [OF sg l(3) le]
    have "balance (cashOut g) = balance g + COST_TO_PLAY * currentMultiplier g"
      by (rule cashOut_fields(2) [OF sg l(4)])
    then have co: "balance (cashOut g) = balance g + COST_TO_PLAY"
      by (simp add: l(2))
    show "roundTime g = 0 \<and> currentMultiplier g = 1 \<and>
            state (update dt g) = (if dt < 16 / 10 then CRASHED else IDLE) \<and>
            filter isSettlement (newCalls g (update dt g)) = [SetLastResult Loss COST_TO_PLAY] \<and>
            balance (update dt g) = balance g \<and>
            balance (cashOut g) = balance g + COST_TO_PLAY"
      by (intro conjI) (rule l(1) l(2) u balance_update co)+
  qed
  show ?thesis by (intro conjI) (rule a b)+
qed

theorem instant_crash_below_one_witness:
  "(61603::int) \<le> 65535 \<and> (65535::int) \<le> 65535 \<and>
   crashMultiplierOf (Fin (of_int 65535)) = Fin (94 / 100) \<and>
   reachable (startRound_resume (94 / 100) (startRound_begin newGame)) \<and>
   state (startRound_resume (94 / 100) (startRound_begin newGame)) = RUNNING \<and>
   Fin (crashMultiplier (startRound_resume (94 / 100) (startRound_begin newGame))) =
     crashMultiplierOf (Fin (of_int 65535)) \<and>
   (0::real) \<le> 1 / 60 \<and>
   state (update (1 / 60) (startRound_resume (94 / 100) (startRound_begin newGame))) = CRASHED \<and>
   balance (update (1 / 60) (startRound_resume (94 / 100) (startRound_begin newGame))) = 90"
proof -
  have a: "(61603::int) \<le> 65535" "(65535::int) \<le> 65535" by simp_all
  have c: "crashMultiplierOf (Fin (of_int 65535)) = Fin (94 / 100)"
    by (simp add: crashMultiplierOf_def consts_defs)
  have s: "state (startRound_resume (94 / 100) (startRound_begin newGame)) = RUNNING"
    by (rule ex_running_fields)
  have e: "Fin (crashMultiplier (startRound_resume (94 / 100) (startRound_begin newGame))) =
     crashMultiplierOf (Fin (of_int 65535))"
    by (simp only: c ex_running_fields)
  have d: "(0::real) \<le> 1 / 60" by simp
  note t = instant_crash_below_one [OF a,
      of "startRound_resume (94 / 100) (startRound_begin newGame)" "1 / 60"]
  have u1: "state (update (1 / 60) (startRound_resume (94 / 100) (startRound_begin newGame))) =
      (if (1 / 60 :: real) < 16 / 10 then CRASHED else IDLE)"
    using t ex_running_reachable [of "94 / 100"] s e d by blast
  have u2: "state (update (1 / 60) (startRound_resume (94 / 100) (startRound_begin newGame))) =
      CRASHED"
    using u1 by simp
  have "balance (update (1 / 60) (startRound_resume (94 / 100) (startRound_begin newGame))) =
      balance (startRound_resume (94 / 100) (startRound_begin newGame))"
    using t ex_running_reachable [of "94 / 100"] s e d by blast
  then have u3:
    "balance (update (1 / 60) (startRound_resume (94 / 100) (startRound_begin newGame))) = 90"
    by (simp only: ex_running_fields)
  show ?thesis
    by (intro conjI) (rule a c ex_running_reachable s e d u2 u3)+
qed

subsection \<open>Parsed and clamped values are 16-bit integers\<close>

lemma toNumber_cases:
  "toNumber n = Fin (of_int n) \<or> toNumber n = PosInfinity \<or> toNumber n = NegInfinity"
  by (simp add: toNumber_def)

lemma parseInt_finite:
  assumes "Number_isFinite (parseInt s radix)"
  shows "\<exists>n :: int. parseInt s radix = Fin (of_int n)"
proof -
  have "parseInt s radix = NaN \<or> (\<exists>n. parseInt s radix = toNumber n)"
    by (auto simp: parseInt_def Let_def)
  then show ?thesis
    using assms toNumber_cases by (metis Number_isFinite.simps(2,3,4))
qed

lemma parseField_integer:
  assumes "parseField d radix = Some v"
  shows "\<exists>n :: int. v = Fin (of_int n)"
  using assms parseInt_finite
  by (auto simp: parseField_def Let_def split: option.splits if_splits)

lemma readOutshiftNumber_integer:
  assumes "readOutshiftNumber p = Some v"
  shows "\<exists>n :: int. v = Fin (of_int n)"
  using assms parseField_integer
  by (auto simp: readOutshiftNumber_def Let_def split: option.splits list.splits)

lemma clamp_rounded:
  fixes k :: int
  shows "(let rounded = Fin (of_int k)
          in if Number_isNaN rounded then Fin 0
             else if num_less rounded (Fin 0) then Fin 0
             else if num_less (Fin MAX_UINT16) rounded
             then num_rem rounded (Fin (MAX_UINT16 + 1))
             else rounded) =
         Fin (of_int (if k < 0 then 0 else if 65535 < k then k mod 65536 else k))"
proof -
  have m: "of_int k - 65536 * of_int \<lfloor>(of_int k :: real) / 65536\<rfloor> = (of_int (k mod 65536) :: real)"
  proof -
    have "\<lfloor>(of_int k :: real) / of_int 65536\<rfloor> = k div 65536"
      by (rule floor_divide_of_int_eq)
    then have "\<lfloor>(of_int k :: real) / 65536\<rfloor> = k div 65536" by simp
    moreover have "k - 65536 * (k div 65536) = k mod 65536"
      by (simp add: minus_mult_div_eq_mod)
    ultimately show ?thesis
      by (metis of_int_diff of_int_mult of_int_numeral)
  qed
  show ?thesis
  proof (cases "k < 0")
    case True
    then show ?thesis by (simp add: Let_def)
  next
    case False
    show ?thesis
    proof (cases "65535 < k")
      case True
      then have "sgn (of_int k :: real) = 1" "\<bar>of_int k :: real\<bar> = of_int k"
        by simp_all
      then show ?thesis using True False m
        by (simp add: Let_def MAX_UINT16_def)
    next
      case False
      then show ?thesis using \<open>\<not> k < 0\<close>
        by (simp add: Let_def MAX_UINT16_def)
    qed
  qed
qed

lemma clampUint16_Fin:
  "clampUint16 (Fin x) =
     Fin (of_int (if \<lfloor>x + 1 / 2\<rfloor> < 0 then 0
                  else if 65535 < \<lfloor>x + 1 / 2\<rfloor> then \<lfloor>x + 1 / 2\<rfloor> mod 65536
                  else \<lfloor>x + 1 / 2\<rfloor>))"
  unfolding clampUint16_def Math_round.simps by (rule clamp_rounded)

lemma clampUint16_range:
  "\<exists>n :: int. clampUint16 (Fin x) = Fin (of_int n) \<and> 0 \<le> n \<and> n \<le> 65535"
proof -
  define n where "n = (if \<lfloor>x + 1 / 2\<rfloor> < 0 then 0
                  else if 65535 < \<lfloor>x + 1 / 2\<rfloor> then \<lfloor>x + 1 / 2\<rfloor> mod 65536
                  else \<lfloor>x + 1 / 2\<rfloor>)"
  have "clampUint16 (Fin x) = Fin (of_int n)"
    unfolding n_def by (rule clampUint16_Fin)
  moreover have "0 \<le> n \<and> n \<le> 65535"
    by (auto simp: n_def)
  ultimately show ?thesis by blast
qed

lemma localFallback_range:
  "\<exists>n :: int. fst (localFallback fb rng) = Fin (of_int n) \<and> 0 \<le> n \<and> n \<le> 65535"
proof -
  have "uint fb < 2 ^ LENGTH(16)" by (rule uint_lt2p)
  then have u: "uint fb \<le> 65535" by simp
  have "real (unat fb) = of_int (uint fb)" by simp
  then have "fst (localFallback fb rng) = Fin (of_int (uint fb))"
    by (simp only: localFallback_def fst_conv)
  then show ?thesis using u by (metis uint_ge_0)
qed

lemma getUint16_range:
  "\<exists>n :: int. fst (getUint16 use res fb rng) = Fin (of_int n) \<and> 0 \<le> n \<and> n \<le> 65535"
proof (cases "use \<and> (\<exists>v. tryRemote res = Inr v)")
  case True
  then obtain v where v: "tryRemote res = Inr v" and u: use by blast
  then obtain d where "readOutshiftNumber d = Some v"
    by (auto simp: tryRemote_def split: FetchResult.splits JsonResult.splits option.splits if_splits)
  then obtain m :: int where "v = Fin (of_int m)"
    using readOutshiftNumber_integer by blast
  then show ?thesis
    using u v clampUint16_range [of "of_int m"] by (simp add: getUint16_def)
next
  case False
  then have "getUint16 use res fb rng = localFallback fb rng"
    by (auto simp: getUint16_def split: sum.splits)
  then show ?thesis using localFallback_range by simp
qed

lemmas parse_defs = parseInt_def isWhiteSpace_def isRadixDigit_def digitValue_def
  digitsValue_def toNumber_def

lemmas atob_defs = atob_def isAsciiWhitespace_def base64Value_def char_of_def bit_0

lemma ex_atob: "atob ''NzAwMDA='' = Some ''70000''"
  by (simp add: atob_defs)

lemma ex_trim: "trim ''70000'' = ''70000''"
  by (simp add: trim_def isWhiteSpace_def)

lemma ex_parse: "parseInt ''70000'' 10 = Fin 70000"
  by (simp add: parse_defs)

lemma ex_payload_good:
  "readOutshiftNumber
     \<lparr>encoding = Some Base64,
      random_numbers = Some [\<lparr>binary = None, octal = None, decimal = Some ''NzAwMDA='',
                               hexadecimal = None\<rparr>]\<rparr> = Some (Fin 70000)"
  by (simp add: readOutshiftNumber_def decodeValue_def parseField_def ex_atob ex_trim ex_parse)

lemma ex_payload_empty:
  "readOutshiftNumber \<lparr>encoding = Some Base64, random_numbers = None\<rparr> = None"
  "readOutshiftNumber
     \<lparr>encoding = Some Base64,
      random_numbers = Some [\<lparr>binary = None, octal = None, decimal = None,
                               hexadecimal = None\<rparr>]\<rparr> = None"
  by (simp_all add: readOutshiftNumber_def decodeValue_def parseField_def)

lemma ex_clamp: "clampUint16 (Fin 70000) = Fin 4464"
  by (simp add: clampUint16_Fin)

subsection \<open>C5: the entropy draw never fails\<close>

text \<open>
  Claim C5. \<open>getUint16\<close> always returns an integer from 0 to 65535. When the remote path
  is not used or fails (the fetch is rejected, the status is not a success, the body cannot
  be parsed, or no field of the body gives a number) the result is the locally generated
  16-bit element and the quantum flag is set to false; no failure is left to propagate.
  When the remote path succeeds the result is the clamped remote value and the flag is set
  to true.
\<close>

theorem getUint16_never_fails:
  "(\<exists>n :: int. fst (getUint16 use res fb rng) = Fin (of_int n) \<and> 0 \<le> n \<and> n \<le> 65535) \<and>
   (\<not> use \<or> res = FetchRejected \<or> res = Response False body \<or>
    res = Response True JsonRejected \<or>
    (res = Response True (JsonValue d) \<and> readOutshiftNumber d = None) \<longrightarrow>
      getUint16 use res fb rng = (Fin (of_nat (unat fb)), rng\<lparr>isQuantum := False\<rparr>)) \<and>
   (use \<and> res = Response True (JsonValue d) \<and> readOutshiftNumber d = Some v \<longrightarrow>
      getUint16 use res fb rng = (clampUint16 v, rng\<lparr>isQuantum := True\<rparr>))"
proof (intro conjI)
  show "\<exists>n :: int. fst (getUint16 use res fb rng) = Fin (of_int n) \<and> 0 \<le> n \<and> n \<le> 65535"
    by (rule getUint16_range)
  show "\<not> use \<or> res = FetchRejected \<or> res = Response False body \<or>
    res = Response True JsonRejected \<or>
    (res = Response True (JsonValue d) \<and> readOutshiftNumber d = None) \<longrightarrow>
      getUint16 use res fb rng = (Fin (of_nat (unat fb)), rng\<lparr>isQuantum := False\<rparr>)"
    by (auto simp: getUint16_def tryRemote_def localFallback_def)
  show "use \<and> res = Response True (JsonValue d) \<and> readOutshiftNumber d = Some v \<longrightarrow>
      getUint16 use res fb rng = (clampUint16 v, rng\<lparr>isQuantum := True\<rparr>)"
    by (auto simp: getUint16_def tryRemote_def)
qed

theorem getUint16_never_fails_witness:
  "getUint16 False FetchRejected 7 \<lparr>isQuantum = True\<rparr> = (Fin 7, \<lparr>isQuantum = False\<rparr>) \<and>
   getUint16 True FetchRejected 7 \<lparr>isQuantum = True\<rparr> = (Fin 7, \<lparr>isQuantum = False\<rparr>) \<and>
   getUint16 True (Response False JsonRejected) 7 \<lparr>isQuantum = True\<rparr> =
     (Fin 7, \<lparr>isQuantum = False\<rparr>) \<and>
   getUint16 True (Response True JsonRejected) 7 \<lparr>isQuantum = True\<rparr> =
     (Fin 7, \<lparr>isQuantum = False\<rparr>) \<and>
   readOutshiftNumber \<lparr>encoding = Some Base64, random_numbers = None\<rparr> = None \<and>
   getUint16 True (Response True (JsonValue \<lparr>encoding = Some Base64, random_numbers = None\<rparr>))
       7 \<lparr>isQuantum = True\<rparr> =
     (Fin 7, \<lparr>isQuantum = False\<rparr>) \<and>
   readOutshiftNumber
     \<lparr>encoding = Some Base64,
      random_numbers = Some [\<lparr>binary = None, octal = None, decimal = Some ''NzAwMDA='',
                               hexadecimal = None\<rparr>]\<rparr> = Some (Fin 70000) \<and>
   getUint16 True
       (Response True (JsonValue
         \<lparr>encoding = Some Base64,
          random_numbers = Some [\<lparr>binary = None, octal = None, decimal = Some ''NzAwMDA='',
                                   hexadecimal = None\<rparr>]\<rparr>))
       7 \<lparr>isQuantum = False\<rparr> =
     (Fin 4464, \<lparr>isQuantum = True\<rparr>)"
proof -
  note n = ex_payload_empty(1)
  note g = ex_payload_good
  have 1: "getUint16 False FetchRejected 7 \<lparr>isQuantum = True\<rparr> = (Fin 7, \<lparr>isQuantum = False\<rparr>)"
    using getUint16_never_fails [of False FetchRejected 7 "\<lparr>isQuantum = True\<rparr>"]
    by simp
  have 2: "getUint16 True FetchRejected 7 \<lparr>isQuantum = True\<rparr> = (Fin 7, \<lparr>isQuantum = False\<rparr>)"
    using getUint16_never_fails [of True FetchRejected 7 "\<lparr>isQuantum = True\<rparr>"]
    by simp
  have 3: "getUint16 True (Response False JsonRejected) 7 \<lparr>isQuantum = True\<rparr> =
     (Fin 7, \<lparr>isQuantum = False\<rparr>)"
    using getUint16_never_fails
      [of True "Response False JsonRejected" 7 "\<lparr>isQuantum = True\<rparr>" JsonRejected]
    by simp
  have 4: "getUint16 True (Response True JsonRejected) 7 \<lparr>isQuantum = True\<rparr> =
     (Fin 7, \<lparr>isQuantum = False\<rparr>)"
    using getUint16_never_fails
      [of True "Response True JsonRejected" 7 "\<lparr>isQuantum = True\<rparr>"]
    by simp
  have 5: "getUint16 True
      (Response True (JsonValue \<lparr>encoding = Some Base64, random_numbers = None\<rparr>))
       7 \<lparr>isQuantum = True\<rparr> =
     (Fin 7, \<lparr>isQuantum = False\<rparr>)"
    using getUint16_never_fails
      [of True "Response True (JsonValue \<lparr>encoding = Some Base64, random_numbers = None\<rparr>)"
          7 "\<lparr>isQuantum = True\<rparr>" JsonRejected
          "\<lparr>encoding = Some Base64, random_numbers = None\<rparr>"] n
    by simp
  have 6: "getUint16 True
       (Response True (JsonValue
         \<lparr>encoding = Some Base64,
          random_numbers = Some [\<lparr>binary = None, octal = None, decimal = Some ''NzAwMDA='',
                                   hexadecimal = None\<rparr>]\<rparr>))
       7 \<lparr>isQuantum = False\<rparr> =
     (Fin 4464, \<lparr>isQuantum = True\<rparr>)"
    using getUint16_never_fails
      [of True "Response True (JsonValue
         \<lparr>encoding = Some Base64,
          random_numbers = Some [\<lparr>binary = None, octal = None, decimal = Some ''NzAwMDA='',
                                   hexadecimal = None\<rparr>]\<rparr>)"
          7 "\<lparr>isQuantum = False\<rparr>" JsonRejected
          "\<lparr>encoding = Some Base64,
          random_numbers = Some [\<lparr>binary = None, octal = None, decimal = Some ''NzAwMDA='',
                                   hexadecimal = None\<rparr>]\<rparr>" "Fin 70000"] g
    by (simp add: ex_clamp)
  show ?thesis
    by (intro conjI) (rule 1 2 3 4 5 6 n g)+
qed

subsection \<open>An absent field and an empty field\<close>

lemma parseInt_empty: "parseInt [] radix = NaN"
  by (simp add: parseInt_def Let_def)

lemma atob_empty: "atob [] = Some []"
  by (simp add: atob_def)

lemma trim_empty: "trim [] = []"
  by (simp add: trim_def)

lemma parseField_decodeValue:
  "parseField (decodeValue f enc) radix = spec_parseRadix enc (f, radix)"
proof (cases f)
  case None
  then show ?thesis by (simp add: parseField_def decodeValue_def spec_parseRadix_def)
next
  case (Some s)
  show ?thesis
  proof (cases "s = []")
    case True
    then show ?thesis using Some
      by (cases enc)
        (simp_all add: parseField_def decodeValue_def spec_parseRadix_def spec_envelopeDecode_def
          parseInt_empty atob_empty trim_empty)
  next
    case False
    then show ?thesis using Some
      by (cases enc; cases "atob s")
        (simp_all add: parseField_def decodeValue_def spec_parseRadix_def spec_envelopeDecode_def
          Let_def)
  qed
qed

lemma ex_parse_fields:
  "parseInt ''zz'' 10 = NaN" "parseInt ''ff'' 16 = Fin 255" "parseInt ''12'' 10 = Fin 12"
  "trim ''zz'' = ''zz''" "trim '' ff '' = ''ff''" "trim ''12'' = ''12''"
  by (simp_all add: parse_defs trim_def)

subsection \<open>C9: the order in which the radix fields are tried\<close>

text \<open>
  Claim C9. \<open>readOutshiftNumber\<close> computes what the specification describes: on the first
  record of the response, the fields decimal, hexadecimal, binary and octal are decoded by
  the envelope encoding (base64: decode, then trim; raw: trim only) and parsed in their
  radix, in that order, and the first finite result is returned; there is no result when
  there is no record or when no field gives a finite number.
\<close>

theorem readOutshiftNumber_priority:
  "readOutshiftNumber payload =
     (case random_numbers payload of
        None \<Rightarrow> None
      | Some [] \<Rightarrow> None
      | Some (entry # _) \<Rightarrow>
          spec_firstFinite (case encoding payload of None \<Rightarrow> Base64 | Some e \<Rightarrow> e) entry)"
  by (simp add: readOutshiftNumber_def spec_firstFinite_def spec_priority_def
      List.map_filter_simps parseField_decodeValue Let_def
      split: option.splits list.splits)

theorem readOutshiftNumber_priority_witness:
  "readOutshiftNumber
     \<lparr>encoding = Some Raw,
      random_numbers = Some [\<lparr>binary = Some ''101'', octal = None, decimal = Some ''zz'',
                               hexadecimal = Some '' ff ''\<rparr>]\<rparr> = Some (Fin 255) \<and>
   readOutshiftNumber
     \<lparr>encoding = Some Raw,
      random_numbers = Some [\<lparr>binary = None, octal = None, decimal = Some ''12'',
                               hexadecimal = Some '' ff ''\<rparr>]\<rparr> = Some (Fin 12) \<and>
   readOutshiftNumber
     \<lparr>encoding = None,
      random_numbers = Some [\<lparr>binary = None, octal = None, decimal = Some ''NzAwMDA='',
                               hexadecimal = Some ''ff''\<rparr>]\<rparr> = Some (Fin 70000) \<and>
   readOutshiftNumber \<lparr>encoding = None, random_numbers = Some []\<rparr> = None"
proof -
  have 1: "readOutshiftNumber
     \<lparr>encoding = Some Raw,
      random_numbers = Some [\<lparr>binary = Some ''101'', octal = None, decimal = Some ''zz'',
                               hexadecimal = Some '' ff ''\<rparr>]\<rparr> = Some (Fin 255)"
    by (simp add: readOutshiftNumber_priority [of "\<lparr>encoding = Some Raw,
      random_numbers = Some [\<lparr>binary = Some ''101'', octal = None, decimal = Some ''zz'',
                               hexadecimal = Some '' ff ''\<rparr>]\<rparr>"]
        spec_firstFinite_def spec_priority_def spec_parseRadix_def spec_envelopeDecode_def
        List.map_filter_simps ex_parse_fields)
  have 2: "readOutshiftNumber
     \<lparr>encoding = Some Raw,
      random_numbers = Some [\<lparr>binary = None, octal = None, decimal = Some ''12'',
                               hexadecimal = Some '' ff ''\<rparr>]\<rparr> = Some (Fin 12)"
    by (simp add: readOutshiftNumber_priority [of "\<lparr>encoding = Some Raw,
      random_numbers = Some [\<lparr>binary = None, octal = None, decimal = Some ''12'',
                               hexadecimal = Some '' ff ''\<rparr>]\<rparr>"]
        spec_firstFinite_def spec_priority_def spec_parseRadix_def spec_envelopeDecode_def
        List.map_filter_simps ex_parse_fields)
  have 3: "readOutshiftNumber
     \<lparr>encoding = None,
      random_numbers = Some [\<lparr>binary = None, octal = None, decimal = Some ''NzAwMDA='',
                               hexadecimal = Some ''ff''\<rparr>]\<rparr> = Some (Fin 70000)"
    by (simp add: readOutshiftNumber_priority [of "\<lparr>encoding = None,
      random_numbers = Some [\<lparr>binary = None, octal = None, decimal = Some ''NzAwMDA='',
                               hexadecimal = Some ''ff''\<rparr>]\<rparr>"]
        spec_firstFinite_def spec_priority_def spec_parseRadix_def spec_envelopeDecode_def
        List.map_filter_simps ex_atob ex_trim ex_parse)
  have 4: "readOutshiftNumber \<lparr>encoding = None, random_numbers = Some []\<rparr> = None"
    by (simp add: readOutshiftNumber_priority [of "\<lparr>encoding = None, random_numbers = Some []\<rparr>"])
  show ?thesis
    by (intro conjI) (rule 1 2 3 4)+
qed

end
